theory Spec2Isabelle
  imports Main "HOL-Library.Char_ord" "HOL-Library.List_Lexorder" "HOL-Library.Product_Lexorder"
begin

section \<open>Strings\<close>

text \<open>
  Python \<open>str\<close> values are modelled as \<open>string\<close>; the characters that matter to the
  program (letters, \<open>/\<close>, \<open>.\<close>, \<open>,\<close>, \<open>*\<close>, white space) are ASCII, and \<open>str.lower\<close>
  is modelled on the ASCII letters (every other character is left as it is).
\<close>

definition lower_char :: "char \<Rightarrow> char" where
  "lower_char c =
     (let n = (of_char c :: nat) in if 65 \<le> n \<and> n \<le> 90 then char_of (n + 32) else c)"

definition lower :: "string \<Rightarrow> string" where
  "lower s = map lower_char s"

text \<open>\<open>s.startswith(p)\<close> and \<open>s.endswith(p)\<close>.\<close>

definition startswith :: "string \<Rightarrow> string \<Rightarrow> bool" where
  "startswith s p = (take (length p) s = p)"

definition endswith :: "string \<Rightarrow> string \<Rightarrow> bool" where
  "endswith s p = (length p \<le> length s \<and> drop (length s - length p) s = p)"

text \<open>\<open>s.split(c)\<close> for a one-character separator: never empty, \<open>''''.split(c) = ['''']\<close>.\<close>

fun split_on :: "char \<Rightarrow> string \<Rightarrow> string list" where
  "split_on c [] = [[]]"
| "split_on c (x # xs) =
     (if x = c then [] # split_on c xs
      else (case split_on c xs of [] \<Rightarrow> [[x]] | w # ws \<Rightarrow> (x # w) # ws))"

text \<open>\<open>''/''.join(ps)\<close>.\<close>

fun join_slash :: "string list \<Rightarrow> string" where
  "join_slash [] = []"
| "join_slash [p] = p"
| "join_slash (p # q # ps) = p @ CHR ''/'' # join_slash (q # ps)"

section \<open>Paths\<close>

text \<open>
  \<open>pathlib.Path\<close> in its POSIX flavour: a path object is its root (\<open>''''\<close>, \<open>''/''\<close> or
  \<open>''//''\<close>) and the list of its components. Parsing drops empty components and \<open>.\<close>
  components and keeps \<open>..\<close>; the platform separator is \<open>/\<close>, and \<open>as_posix\<close> is \<open>str\<close>.
\<close>

record ppath =
  p_root :: string
  p_tail :: "string list"

definition os_sep :: char where
  "os_sep = CHR ''/''"

definition path_root :: "string \<Rightarrow> string" where
  "path_root s =
     (if startswith s ''//'' \<and> \<not> startswith s ''///'' then ''//''
      else if startswith s ''/'' then ''/'' else '''')"

definition Path :: "string \<Rightarrow> ppath" where
  "Path s = \<lparr> p_root = path_root s,
              p_tail = filter (\<lambda>x. x \<noteq> [] \<and> x \<noteq> ''.'') (split_on os_sep s) \<rparr>"

definition as_posix :: "ppath \<Rightarrow> string" where
  "as_posix p =
     (if p_root p = [] \<and> p_tail p = [] then ''.'' else p_root p @ join_slash (p_tail p))"

text \<open>\<open>Path.parts\<close>: the root, when there is one, is the first part.\<close>

definition parts :: "ppath \<Rightarrow> string list" where
  "parts p = (if p_root p = [] then [] else [p_root p]) @ p_tail p"

text \<open>\<open>Path.name\<close>: the last component, \<open>''''\<close> when there is none.\<close>

definition name :: "ppath \<Rightarrow> string" where
  "name p = (if p_tail p = [] then [] else last (p_tail p))"

text \<open>
  \<open>Path.suffix\<close> and \<open>Path.stem\<close>: with \<open>i = name.rfind(''.'')\<close>, the suffix is
  \<open>name[i:]\<close> when \<open>0 < i < len(name) - 1\<close> and empty otherwise.
\<close>

definition rfind_dot :: "string \<Rightarrow> nat option" where
  "rfind_dot n =
     (if CHR ''.'' \<in> set n then Some (length n - 1 - length (takeWhile (\<lambda>c. c \<noteq> CHR ''.'') (rev n)))
      else None)"

definition suffix_of_name :: "string \<Rightarrow> string" where
  "suffix_of_name n =
     (case rfind_dot n of
        None \<Rightarrow> []
      | Some i \<Rightarrow> if 0 < i \<and> i + 1 < length n then drop i n else [])"

definition suffix :: "ppath \<Rightarrow> string" where
  "suffix p = suffix_of_name (name p)"

definition stem :: "ppath \<Rightarrow> string" where
  "stem p = (let n = name p in take (length n - length (suffix_of_name n)) n)"

text \<open>The program's errors, as values.\<close>

datatype error =
    ValueError
  | IndexError
  | KeyError
  | AttributeError
  | ArchiveError
  | OSError

text \<open>
  \<open>Path.with_suffix(ext)\<close>: raises \<open>ValueError\<close> on a suffix that holds a separator, that
  is not empty and does not start with a dot, or that is a lone dot, and on a path whose
  name is empty.
\<close>

definition with_suffix :: "ppath \<Rightarrow> string \<Rightarrow> error + ppath" where
  "with_suffix p ext =
     (if os_sep \<in> set ext then Inl ValueError
      else if (ext \<noteq> [] \<and> \<not> startswith ext ''.'') \<or> ext = ''.'' then Inl ValueError
      else if name p = [] then Inl ValueError
      else Inr (p\<lparr> p_tail := butlast (p_tail p) @ [stem p @ ext] \<rparr>))"

text \<open>\<open>a / b\<close>: an absolute right operand replaces the left one.\<close>

definition joinpath :: "ppath \<Rightarrow> ppath \<Rightarrow> ppath" where
  "joinpath a b = (if p_root b \<noteq> [] then b else a\<lparr> p_tail := p_tail a @ p_tail b \<rparr>)"

text \<open>\<open>str.lstrip(cs)\<close>: drops the leading characters that are in \<open>cs\<close>.\<close>

definition lstrip_chars :: "string \<Rightarrow> string \<Rightarrow> string" where
  "lstrip_chars cs s = dropWhile (\<lambda>c. c \<in> set cs) s"

text \<open>\<open>index.normalize_rel\<close>, on a string and on a path object.\<close>

definition normalize_rel_path :: "ppath \<Rightarrow> string" where
  "normalize_rel_path p = lstrip_chars ''./'' (lower (as_posix p))"




section \<open>Dictionaries\<close>

text \<open>
  A Python \<open>dict\<close> keeps its keys in insertion order, and the program iterates over
  dictionaries, so a dictionary is an association list with distinct keys: assigning to
  a key that is present replaces its value in place, a new key goes to the end.
\<close>

fun dict_set :: "('k \<times> 'v) list \<Rightarrow> 'k \<Rightarrow> 'v \<Rightarrow> ('k \<times> 'v) list" where
  "dict_set [] k v = [(k, v)]"
| "dict_set ((k', v') # d) k v =
     (if k' = k then (k', v) # d else (k', v') # dict_set d k v)"

definition dict_get :: "('k \<times> 'v) list \<Rightarrow> 'k \<Rightarrow> 'v option" where
  "dict_get d k = map_of d k"

definition dict_values :: "('k \<times> 'v) list \<Rightarrow> 'v list" where
  "dict_values d = map snd d"

text \<open>\<open>d.setdefault(k, []).append(v)\<close>.\<close>

definition dict_append :: "('k \<times> 'v list) list \<Rightarrow> 'k \<Rightarrow> 'v \<Rightarrow> ('k \<times> 'v list) list" where
  "dict_append d k v =
     dict_set d k ((case dict_get d k of None \<Rightarrow> [] | Some vs \<Rightarrow> vs) @ [v])"

text \<open>\<open>s.add(x)\<close> on a set kept as a duplicate-free list, in the order of first insertion.\<close>

definition set_add :: "'a list \<Rightarrow> 'a \<Rightarrow> 'a list" where
  "set_add xs x = (if x \<in> set xs then xs else xs @ [x])"

section \<open>Skin files\<close>

text \<open>
  \<open>str.splitlines()\<close>: a line ends at \<open>\n\<close>, \<open>\r\<close>, \<open>\r\n\<close>, \<open>\v\<close>, \<open>\f\<close> and the
  separators \<open>\x1c\<close>, \<open>\x1d\<close>, \<open>\x1e\<close>; a final line break opens no empty line.
\<close>

definition is_linebreak :: "char \<Rightarrow> bool" where
  "is_linebreak c = ((of_char c :: nat) \<in> {10, 11, 12, 13, 28, 29, 30})"

fun splitlines_acc :: "string \<Rightarrow> string \<Rightarrow> string list" where
  "splitlines_acc cur [] = (if cur = [] then [] else [rev cur])"
| "splitlines_acc cur (c # cs) =
     (if is_linebreak c then
        rev cur #
        (case cs of
           d # ds \<Rightarrow>
             if (of_char c :: nat) = 13 \<and> (of_char d :: nat) = 10 then splitlines_acc [] ds
             else splitlines_acc [] cs
         | [] \<Rightarrow> splitlines_acc [] cs)
      else splitlines_acc (c # cur) cs)"

definition splitlines :: "string \<Rightarrow> string list" where
  "splitlines text = splitlines_acc [] text"

text \<open>\<open>str.strip()\<close>: removes leading and trailing white space.\<close>

definition is_space :: "char \<Rightarrow> bool" where
  "is_space c = ((of_char c :: nat) \<in> {9, 10, 11, 12, 13, 28, 29, 30, 31, 32})"

definition strip :: "string \<Rightarrow> string" where
  "strip s = rev (dropWhile is_space (rev (dropWhile is_space s)))"

text \<open>
  The body of the loop of \<open>skin.parse_skin_text\<close>: one raw line, the mapping so far, the
  mapping after it. \<open>line.split('','', 1)\<close> cuts at the first comma.
\<close>

definition parse_skin_line :: "(string \<times> string) list \<Rightarrow> string \<Rightarrow> (string \<times> string) list" where
  "parse_skin_line mapping raw_line =
     (let line = strip raw_line in
      if line = [] \<or> startswith line ''//'' then mapping
      else if CHR '','' \<notin> set line then mapping
      else
        let part = strip (takeWhile (\<lambda>c. c \<noteq> CHR '','') line);
            tex = strip (tl (dropWhile (\<lambda>c. c \<noteq> CHR '','') line))
        in if lower tex \<in> {''*off'', ''off''} then mapping
           else if part \<noteq> [] then dict_set mapping part tex
           else mapping)"

definition parse_skin_text :: "string \<Rightarrow> (string \<times> string) list" where
  "parse_skin_text text = foldl parse_skin_line [] (splitlines text)"



section \<open>Index records\<close>

text \<open>\<open>data_types.FileSource\<close> and \<open>data_types.ModelSource\<close>; the two sets of a model source
  are kept as duplicate-free lists.\<close>

record FileSource =
  origin :: string
  container :: "ppath option"
  rel_path :: ppath

record ModelSource =
  m_origin :: string
  m_container :: "ppath option"
  glm :: "ppath option"
  skins :: "ppath list"
  glas :: "ppath list"

text \<open>The entries of \<open>models_tmp\<close> during the scan and of \<open>models\<close> in the finished index.\<close>

record tmp_entry =
  t_sources :: "(ppath \<times> ModelSource) list"
  t_skins :: "ppath list"

record model_entry =
  e_sources :: "ModelSource list"
  e_primary :: ModelSource
  e_skins :: "ppath list"

record scan =
  models_tmp :: "(string \<times> tmp_entry) list"
  s_textures_by_rel :: "(string \<times> FileSource list) list"
  s_textures_by_stem :: "(string \<times> FileSource list) list"
  s_gla_index :: "(string \<times> FileSource list) list"

record asset_index =
  base :: ppath
  models :: "(string \<times> model_entry) list"
  textures_by_rel :: "(string \<times> FileSource list) list"
  textures_by_stem :: "(string \<times> FileSource list) list"
  gla_index :: "(string \<times> FileSource list) list"

text \<open>\<open>index.source_priority\<close>; the tuples are compared lexicographically.\<close>

definition source_priority :: "ModelSource \<Rightarrow> nat \<times> nat" where
  "source_priority src =
     (if m_origin src = ''disk'' then (0, 0)
      else if (case m_container src of None \<Rightarrow> False
               | Some c \<Rightarrow> lower (name c) = ''assets1.pk3'') then (1, 0)
      else (1, 1))"

section \<open>The file system\<close>

text \<open>
  What the program reads and writes: the working directory, the tree, and the ZIP reader.
  The tree is the list of its entries, each a location (the components from the root,
  without \<open>..\<close>) with a node, in the order in which the operating system enumerates
  them; the root is a directory and has no entry. In a well-formed tree the locations
  are distinct and the parent of every entry is a directory. There are no symbolic
  links and no permissions. \<open>zipfile fs data\<close> is the member list that \<open>ZipFile\<close> reads
  from a file with the bytes \<open>data\<close>, \<open>None\<close> when it raises \<open>BadZipFile\<close>.
\<close>

record zipinfo =
  filename :: string
  z_is_dir :: bool
  z_data :: string

datatype node = Dir | File string

record fsys =
  cwd :: "string list"
  entries :: "(string list \<times> node) list"
  zipfile :: "string \<Rightarrow> zipinfo list option"

definition node_at :: "fsys \<Rightarrow> string list \<Rightarrow> node option" where
  "node_at fs loc = (if loc = [] then Some Dir else map_of (entries fs) loc)"

text \<open>
  Path resolution by the operating system: every component is looked up in a directory,
  and \<open>..\<close> leads to the parent (the root is its own parent). \<open>None\<close> when a component
  is looked up in something that is not a directory; the location found need not exist.
\<close>

fun walk :: "fsys \<Rightarrow> string list \<Rightarrow> string list \<Rightarrow> string list option" where
  "walk fs cur [] = Some cur"
| "walk fs cur (c # cs) =
     (if node_at fs cur \<noteq> Some Dir then None
      else if c = ''..'' then walk fs (butlast cur) cs
      else walk fs (cur @ [c]) cs)"

definition locate :: "fsys \<Rightarrow> ppath \<Rightarrow> string list option" where
  "locate fs p = walk fs (if p_root p = [] then cwd fs else []) (p_tail p)"

definition node_of :: "fsys \<Rightarrow> ppath \<Rightarrow> node option" where
  "node_of fs p = (case locate fs p of None \<Rightarrow> None | Some loc \<Rightarrow> node_at fs loc)"

definition path_exists :: "fsys \<Rightarrow> ppath \<Rightarrow> bool" where
  "path_exists fs p = (node_of fs p \<noteq> None)"

definition is_dir :: "fsys \<Rightarrow> ppath \<Rightarrow> bool" where
  "is_dir fs p = (node_of fs p = Some Dir)"

definition is_file :: "fsys \<Rightarrow> ppath \<Rightarrow> bool" where
  "is_file fs p = (case node_of fs p of Some (File d) \<Rightarrow> True | _ \<Rightarrow> False)"

text \<open>
  Enumeration. \<open>listdir\<close> gives the children of a location (\<open>iterdir\<close>, \<open>glob\<close>) and
  \<open>rscan\<close> all that lies below it (\<open>rglob\<close>), each with the components that lead to it
  from the location and with its node. A path that the program gets from an enumeration
  is the enumerated path joined with these components, so \<open>relative_to\<close> the enumerated
  path gives them back and never raises, and \<open>is_dir()\<close> and \<open>is_file()\<close> of such a path
  are read off the node.
\<close>

definition listdir :: "fsys \<Rightarrow> string list \<Rightarrow> (string \<times> node) list" where
  "listdir fs loc = [(last k, n). (k, n) \<leftarrow> entries fs, k \<noteq> [], butlast k = loc]"

definition rscan :: "fsys \<Rightarrow> string list \<Rightarrow> (string list \<times> node) list" where
  "rscan fs loc =
     [(drop (length loc) k, n). (k, n) \<leftarrow> entries fs, length loc < length k, take (length loc) k = loc]"

definition rel_of :: "string list \<Rightarrow> ppath" where
  "rel_of comps = \<lparr> p_root = [], p_tail = comps \<rparr>"

text \<open>\<open>pk3.open_pk3\<close>: the member list of the archive. Opening a directory raises an
  \<open>OSError\<close> that is not an \<open>ArchiveError\<close>.\<close>

definition open_pk3 :: "fsys \<Rightarrow> ppath \<Rightarrow> error + zipinfo list" where
  "open_pk3 fs path =
     (case node_of fs path of
        None \<Rightarrow> Inl ArchiveError
      | Some Dir \<Rightarrow> Inl OSError
      | Some (File data) \<Rightarrow>
          (case zipfile fs data of None \<Rightarrow> Inl ArchiveError | Some infos \<Rightarrow> Inr infos))"

section \<open>Building the index\<close>

text \<open>
  The module \<open>constants\<close> is not part of the sources at hand: its tuple \<open>TEXTURE_EXTS\<close>
  is a parameter of every function that uses it.
\<close>

definition empty_scan :: scan where
  "empty_scan = \<lparr> models_tmp = [], s_textures_by_rel = [], s_textures_by_stem = [], s_gla_index = [] \<rparr>"

text \<open>The local functions \<open>add_texture\<close>, \<open>add_gla\<close> and \<open>get_entry\<close> of \<open>build_index\<close>.\<close>

definition add_texture :: "scan \<Rightarrow> ppath \<Rightarrow> string \<Rightarrow> ppath option \<Rightarrow> scan" where
  "add_texture s rel orig cont =
     (let fs = \<lparr> origin = orig, container = cont, rel_path = rel \<rparr> in
      s\<lparr> s_textures_by_rel := dict_append (s_textures_by_rel s) (normalize_rel_path rel) fs,
         s_textures_by_stem := dict_append (s_textures_by_stem s) (lower (stem rel)) fs \<rparr>)"

definition add_gla :: "scan \<Rightarrow> ppath \<Rightarrow> string \<Rightarrow> ppath option \<Rightarrow> scan" where
  "add_gla s rel orig cont =
     (let fs = \<lparr> origin = orig, container = cont, rel_path = rel \<rparr> in
      s\<lparr> s_gla_index := dict_append (s_gla_index s) (normalize_rel_path rel) fs \<rparr>)"

definition get_entry :: "scan \<Rightarrow> string \<Rightarrow> tmp_entry" where
  "get_entry s nm =
     (case dict_get (models_tmp s) nm of
        None \<Rightarrow> \<lparr> t_sources = [], t_skins = [] \<rparr>
      | Some e \<Rightarrow> e)"

text \<open>\<open>entry[''sources''].get(key)\<close>, with the fresh source that is stored when there is none.\<close>

definition get_source :: "tmp_entry \<Rightarrow> ppath \<Rightarrow> ModelSource \<Rightarrow> ModelSource" where
  "get_source entry key fresh =
     (case dict_get (t_sources entry) key of None \<Rightarrow> fresh | Some src \<Rightarrow> src)"

text \<open>The program changes the entry and the source in place; the model stores them back.\<close>

definition put_source :: "scan \<Rightarrow> string \<Rightarrow> tmp_entry \<Rightarrow> ppath \<Rightarrow> ModelSource \<Rightarrow> scan" where
  "put_source s nm entry key src =
     s\<lparr> models_tmp :=
          dict_set (models_tmp s) nm (entry\<lparr> t_sources := dict_set (t_sources entry) key src \<rparr>) \<rparr>"

definition should_skip_pk3 :: "ppath \<Rightarrow> bool" where
  "should_skip_pk3 pk3_path = False"

text \<open>One member of one archive: the body of the inner loop over \<open>zf.infolist()\<close>.\<close>

definition scan_member :: "string list \<Rightarrow> ppath \<Rightarrow> scan \<Rightarrow> zipinfo \<Rightarrow> scan" where
  "scan_member TEXTURE_EXTS pk3_path s info =
     (if z_is_dir info then s
      else
        let rel = Path (filename info);
            sfx = lower (suffix rel)
        in
        if sfx \<in> set TEXTURE_EXTS then add_texture s rel ''pk3'' (Some pk3_path)
        else if length (parts rel) < 3 then s
        else if lower (parts rel ! 0) \<noteq> ''models'' \<or> lower (parts rel ! 1) \<noteq> ''players'' then s
        else
          let nm = parts rel ! 2;
              entry = get_entry s nm;
              source = get_source entry pk3_path
                \<lparr> m_origin = ''pk3'', m_container = Some pk3_path, glm = None, skins = [], glas = [] \<rparr>
          in
          if sfx = ''.glm'' then
            put_source s nm entry pk3_path
              (if glm source = None \<or> lower (name rel) = ''model.glm''
               then source\<lparr> glm := Some rel \<rparr> else source)
          else if sfx = ''.skin'' then
            put_source s nm (entry\<lparr> t_skins := set_add (t_skins entry) rel \<rparr>) pk3_path
              (source\<lparr> skins := set_add (skins source) rel \<rparr>)
          else if sfx = ''.gla'' then
            add_gla (put_source s nm entry pk3_path (source\<lparr> glas := set_add (glas source) rel \<rparr>))
              rel ''pk3'' (Some pk3_path)
          else if sfx \<in> set TEXTURE_EXTS then
            add_texture (put_source s nm entry pk3_path source) rel ''pk3'' (Some pk3_path)
          else put_source s nm entry pk3_path source)"

text \<open>
  The loop over the archives. An \<open>ArchiveError\<close> skips the archive; any other exception
  of \<open>open_pk3\<close> leaves \<open>build_index\<close>.
\<close>

fun scan_archives :: "string list \<Rightarrow> fsys \<Rightarrow> ppath list \<Rightarrow> scan \<Rightarrow> error + scan" where
  "scan_archives TEXTURE_EXTS fs [] s = Inr s"
| "scan_archives TEXTURE_EXTS fs (pk3_path # rest) s =
     (if should_skip_pk3 pk3_path then scan_archives TEXTURE_EXTS fs rest s
      else
        (case open_pk3 fs pk3_path of
           Inl ArchiveError \<Rightarrow> scan_archives TEXTURE_EXTS fs rest s
         | Inl e \<Rightarrow> Inl e
         | Inr infos \<Rightarrow>
             scan_archives TEXTURE_EXTS fs rest (foldl (scan_member TEXTURE_EXTS pk3_path) s infos)))"

text \<open>\<open>p.rglob(''*'')\<close>: nothing when \<open>p\<close> is not a directory.\<close>

definition rglob :: "fsys \<Rightarrow> ppath \<Rightarrow> (string list \<times> node) list" where
  "rglob fs p =
     (case locate fs p of
        None \<Rightarrow> []
      | Some loc \<Rightarrow> if node_at fs loc = Some Dir then rscan fs loc else [])"

text \<open>\<open>sorted(base_dir.rglob(''*.pk3''))\<close>: paths are ordered by their parts.\<close>

definition pk3_paths :: "fsys \<Rightarrow> ppath \<Rightarrow> ppath list" where
  "pk3_paths fs base_dir =
     sort_key parts
       [joinpath base_dir (rel_of r). (r, n) \<leftarrow> rglob fs base_dir, endswith (name (rel_of r)) ''.pk3'']"

text \<open>The texture files below a location, as paths relative to \<open>base_dir\<close>: \<open>pre\<close> holds
  the components from \<open>base_dir\<close> to the location.\<close>

definition scan_textures :: "string list \<Rightarrow> fsys \<Rightarrow> string list \<Rightarrow> string list \<Rightarrow> scan \<Rightarrow> scan" where
  "scan_textures TEXTURE_EXTS fs loc pre s =
     foldl (\<lambda>s (r, n).
              case n of
                Dir \<Rightarrow> s
              | File d \<Rightarrow>
                  if lower (suffix (rel_of r)) \<in> set TEXTURE_EXTS
                  then add_texture s (rel_of (pre @ r)) ''disk'' None else s)
       s (rscan fs loc)"

text \<open>
  One child of \<open>models/players\<close>: the body of the loop over \<open>models_dir.iterdir()\<close>.
  \<open>pick_glm\<close> is the choice of \<open>glm_file\<close> among the files that \<open>glob(''*.glm'')\<close>
  found; \<open>scan_disk_skin\<close> and \<open>scan_disk_gla\<close> are the bodies of the loops over the
  \<open>*.skin\<close> and the \<open>*.gla\<close> files, which change the source stored under \<open>key\<close>.
\<close>

definition disk_source :: ModelSource where
  "disk_source = \<lparr> m_origin = ''disk'', m_container = None, glm = None, skins = [], glas = [] \<rparr>"

definition pick_glm :: "string list \<Rightarrow> string option" where
  "pick_glm glm_files =
     (case glm_files of
        [] \<Rightarrow> None
      | g # gs \<Rightarrow>
          Some (case filter (\<lambda>f. lower f = ''model.glm'') glm_files of [] \<Rightarrow> g | f # fs' \<Rightarrow> f))"

definition scan_disk_skin :: "string \<Rightarrow> ppath \<Rightarrow> scan \<Rightarrow> ppath \<Rightarrow> scan" where
  "scan_disk_skin dname key s rel =
     (let entry = get_entry s dname;
          source = get_source entry key disk_source
      in put_source s dname (entry\<lparr> t_skins := set_add (t_skins entry) rel \<rparr>) key
           (source\<lparr> skins := set_add (skins source) rel \<rparr>))"

definition scan_disk_gla :: "string \<Rightarrow> ppath \<Rightarrow> scan \<Rightarrow> ppath \<Rightarrow> scan" where
  "scan_disk_gla dname key s rel =
     (let entry = get_entry s dname;
          source = get_source entry key disk_source
      in add_gla (put_source s dname entry key (source\<lparr> glas := set_add (glas source) rel \<rparr>))
           rel ''disk'' None)"

definition scan_model_dir ::
  "string list \<Rightarrow> fsys \<Rightarrow> ppath \<Rightarrow> string list \<Rightarrow> scan \<Rightarrow> string \<times> node \<Rightarrow> scan" where
  "scan_model_dir TEXTURE_EXTS fs base_dir models_loc s child =
     (case child of
        (dname, File d) \<Rightarrow> s
      | (dname, Dir) \<Rightarrow>
          let model_loc = models_loc @ [dname];
              model_rel = [''models'', ''players'', dname];
              files = map fst (listdir fs model_loc)
          in
          (case pick_glm (filter (\<lambda>f. endswith f ''.glm'') files) of
             None \<Rightarrow> s
           | Some glm_file \<Rightarrow>
               let entry = get_entry s dname;
                   key = joinpath base_dir (rel_of model_rel);
                   source = get_source entry key disk_source;
                   s1 = put_source s dname entry key
                          (source\<lparr> glm := Some (rel_of (model_rel @ [glm_file])) \<rparr>);
                   s2 = foldl (scan_disk_skin dname key) s1
                          (map (\<lambda>f. rel_of (model_rel @ [f])) (filter (\<lambda>f. endswith f ''.skin'') files));
                   s3 = foldl (scan_disk_gla dname key) s2
                          (map (\<lambda>f. rel_of (model_rel @ [f])) (filter (\<lambda>f. endswith f ''.gla'') files))
               in scan_textures TEXTURE_EXTS fs model_loc model_rel s3))"

text \<open>The last loop of \<open>build_index\<close>: the entry of one model name, if it has a source
  with a model file. \<open>sorted\<close> is stable, as \<open>sort_key\<close> is.\<close>

definition finish_entry :: "tmp_entry \<Rightarrow> model_entry option" where
  "finish_entry data =
     (let sources_list = dict_values (t_sources data);
          glm_sources = filter (\<lambda>s. glm s \<noteq> None) sources_list
      in case sort_key source_priority glm_sources of
           [] \<Rightarrow> None
         | primary # others \<Rightarrow>
             Some \<lparr> e_sources = sources_list,
                    e_primary = primary,
                    e_skins = sort_key (\<lambda>p. lower (as_posix p))
                                (remdups (concat (map skins sources_list))) \<rparr>)"

definition finish_models :: "(string \<times> tmp_entry) list \<Rightarrow> (string \<times> model_entry) list" where
  "finish_models tmp =
     foldl (\<lambda>ms (nm, data). case finish_entry data of None \<Rightarrow> ms | Some e \<Rightarrow> dict_set ms nm e)
       [] tmp"

text \<open>The second and the third part of \<open>build_index\<close>: the model directories on disk
  and the loose textures under \<open>textures\<close>.\<close>

definition scan_disk_models :: "string list \<Rightarrow> fsys \<Rightarrow> ppath \<Rightarrow> scan \<Rightarrow> scan" where
  "scan_disk_models TEXTURE_EXTS fs base_dir s =
     (let models_dir = joinpath (joinpath base_dir (Path ''models'')) (Path ''players'') in
      case locate fs models_dir of
        None \<Rightarrow> s
      | Some models_loc \<Rightarrow>
          if node_at fs models_loc = Some Dir
          then foldl (scan_model_dir TEXTURE_EXTS fs base_dir models_loc) s (listdir fs models_loc)
          else s)"

definition scan_loose_textures :: "string list \<Rightarrow> fsys \<Rightarrow> ppath \<Rightarrow> scan \<Rightarrow> scan" where
  "scan_loose_textures TEXTURE_EXTS fs base_dir s =
     (let textures_dir = joinpath base_dir (Path ''textures'') in
      case locate fs textures_dir of
        None \<Rightarrow> s
      | Some textures_loc \<Rightarrow>
          if node_at fs textures_loc = Some Dir
          then scan_textures TEXTURE_EXTS fs textures_loc [''textures''] s
          else s)"

text \<open>\<open>index.build_index\<close>.\<close>

definition build_index :: "string list \<Rightarrow> fsys \<Rightarrow> ppath \<Rightarrow> error + asset_index" where
  "build_index TEXTURE_EXTS fs base_dir =
     (case scan_archives TEXTURE_EXTS fs (pk3_paths fs base_dir) empty_scan of
        Inl e \<Rightarrow> Inl e
      | Inr s1 \<Rightarrow>
          let s2 = scan_disk_models TEXTURE_EXTS fs base_dir s1;
              s3 = scan_loose_textures TEXTURE_EXTS fs base_dir s2
          in Inr \<lparr> base = base_dir,
                   models = finish_models (models_tmp s3),
                   textures_by_rel = s_textures_by_rel s3,
                   textures_by_stem = s_textures_by_stem s3,
                   gla_index = s_gla_index s3 \<rparr>)"


section \<open>Resolving a skin\<close>

text \<open>\<open>skin.read_text_from_source\<close>; bytes and text are not distinguished. \<open>zf.open(name)\<close>
  finds the last member with that file name and raises \<open>KeyError\<close> when there is none; a
  source without a container makes \<open>open_pk3\<close> raise \<open>AttributeError\<close>.\<close>

definition zip_read :: "zipinfo list \<Rightarrow> string \<Rightarrow> error + string" where
  "zip_read infos nm =
     (case filter (\<lambda>i. filename i = nm) (rev infos) of
        [] \<Rightarrow> Inl KeyError
      | i # rest \<Rightarrow> Inr (z_data i))"

definition read_file :: "fsys \<Rightarrow> ppath \<Rightarrow> error + string" where
  "read_file fs p =
     (case node_of fs p of Some (File data) \<Rightarrow> Inr data | _ \<Rightarrow> Inl OSError)"

definition read_source :: "fsys \<Rightarrow> FileSource \<Rightarrow> ppath \<Rightarrow> error + string" where
  "read_source fs source base_dir =
     (if origin source = ''disk'' then read_file fs (joinpath base_dir (rel_path source))
      else
        (case container source of
           None \<Rightarrow> Inl AttributeError
         | Some c \<Rightarrow>
             (case open_pk3 fs c of
                Inl e \<Rightarrow> Inl e
              | Inr infos \<Rightarrow> zip_read infos (as_posix (rel_path source)))))"

definition read_text_from_source :: "fsys \<Rightarrow> FileSource \<Rightarrow> ppath \<Rightarrow> error + string" where
  "read_text_from_source fs source base_dir = read_source fs source base_dir"

text \<open>The local function \<open>choose\<close> of \<open>skin.resolve_texture\<close> (\<open>choose\<close> is taken in HOL); \<open>fs_list[0]\<close> raises
  \<open>IndexError\<close> on an empty list.\<close>

definition choose_source :: "ModelSource option \<Rightarrow> FileSource list \<Rightarrow> error + FileSource" where
  "choose_source preferred fs_list =
     (case (case preferred of
              None \<Rightarrow> None
            | Some p \<Rightarrow>
                (case m_container p of
                   None \<Rightarrow> None
                 | Some c \<Rightarrow> find (\<lambda>fs. container fs = Some c) fs_list)) of
        Some fs \<Rightarrow> Inr fs
      | None \<Rightarrow>
          (case find (\<lambda>fs. origin fs = ''disk'') fs_list of
             Some fs \<Rightarrow> Inr fs
           | None \<Rightarrow> (case fs_list of [] \<Rightarrow> Inl IndexError | fs # rest \<Rightarrow> Inr fs)))"

text \<open>
  \<open>skin.resolve_texture\<close>: the loop over the extensions that are still to be tried, and
  after it the lookup by stem.
\<close>

fun resolve_texture_from ::
  "asset_index \<Rightarrow> ppath \<Rightarrow> ModelSource option \<Rightarrow> string list \<Rightarrow> error + (FileSource \<times> ppath) option" where
  "resolve_texture_from index tex_path preferred [] =
     (case dict_get (textures_by_stem index) (lower (stem tex_path)) of
        None \<Rightarrow> Inr None
      | Some fs_list \<Rightarrow>
          (case choose_source preferred fs_list of
             Inl e \<Rightarrow> Inl e
           | Inr fs \<Rightarrow> Inr (Some (fs, rel_path fs))))"
| "resolve_texture_from index tex_path preferred (ext # exts) =
     (case with_suffix tex_path ext of
        Inl e \<Rightarrow> Inl e
      | Inr candidate \<Rightarrow>
          (case dict_get (textures_by_rel index) (normalize_rel_path candidate) of
             None \<Rightarrow> resolve_texture_from index tex_path preferred exts
           | Some fs_list \<Rightarrow>
               (case choose_source preferred fs_list of
                  Inl e \<Rightarrow> Inl e
                | Inr fs \<Rightarrow> Inr (Some (fs, rel_path fs)))))"

definition resolve_texture ::
  "string list \<Rightarrow> asset_index \<Rightarrow> string \<Rightarrow> ModelSource option \<Rightarrow> error + (FileSource \<times> ppath) option" where
  "resolve_texture TEXTURE_EXTS index tex_entry preferred =
     resolve_texture_from index (Path tex_entry) preferred TEXTURE_EXTS"

text \<open>\<open>skin.resolve_gla\<close> and \<open>skin.find_gla\<close>; \<open>first_gla\<close> is a loop that returns the
  first path that resolves.\<close>

definition resolve_gla :: "asset_index \<Rightarrow> ppath \<Rightarrow> error + FileSource option" where
  "resolve_gla index p =
     (case dict_get (gla_index index) (normalize_rel_path p) of
        None \<Rightarrow> Inr None
      | Some [] \<Rightarrow> Inl IndexError
      | Some (fs # rest) \<Rightarrow> Inr (Some fs))"

fun first_gla :: "asset_index \<Rightarrow> ppath list \<Rightarrow> error + FileSource option" where
  "first_gla index [] = Inr None"
| "first_gla index (p # ps) =
     (case resolve_gla index p of
        Inl e \<Rightarrow> Inl e
      | Inr (Some resolved) \<Rightarrow> Inr (Some resolved)
      | Inr None \<Rightarrow> first_gla index ps)"

definition gla_candidates :: "string \<Rightarrow> ppath list" where
  "gla_candidates model_name =
     [Path (''models/players/'' @ model_name @ ''/'' @ model_name @ ''.gla''),
      Path (''models/players/'' @ model_name @ ''/model.gla''),
      Path ''models/players/_humanoid/_humanoid.gla'']"

definition find_gla :: "asset_index \<Rightarrow> string \<Rightarrow> model_entry \<Rightarrow> error + FileSource option" where
  "find_gla index model_name entry =
     (case first_gla index (concat (map glas (e_sources entry))) of
        Inl e \<Rightarrow> Inl e
      | Inr (Some resolved) \<Rightarrow> Inr (Some resolved)
      | Inr None \<Rightarrow> first_gla index (gla_candidates model_name))"

text \<open>\<open>skin.find_skin_source\<close>.\<close>

definition find_skin_source :: "model_entry \<Rightarrow> ppath \<Rightarrow> FileSource option" where
  "find_skin_source entry skin_rel =
     (case filter (\<lambda>(src, candidate). normalize_rel_path candidate = normalize_rel_path skin_rel)
             (concat (map (\<lambda>src. map (\<lambda>c. (src, c)) (skins src)) (e_sources entry))) of
        [] \<Rightarrow> None
      | (src, candidate) # rest \<Rightarrow>
          Some \<lparr> origin = m_origin src, container = m_container src, rel_path = candidate \<rparr>)"

text \<open>The loop of \<open>skin.collect_assets_for_skin\<close> over the texture references: the
  resolved textures, the missing references and the rename pairs.\<close>

fun resolve_refs ::
  "string list \<Rightarrow> asset_index \<Rightarrow> ModelSource \<Rightarrow> string list \<Rightarrow>
   (FileSource \<times> ppath) list \<times> string list \<times> (string \<times> string) list \<Rightarrow>
   error + ((FileSource \<times> ppath) list \<times> string list \<times> (string \<times> string) list)" where
  "resolve_refs TEXTURE_EXTS index primary [] acc = Inr acc"
| "resolve_refs TEXTURE_EXTS index primary (tex # rest) (textures, missing, replacements) =
     (case resolve_texture TEXTURE_EXTS index tex (Some primary) of
        Inl e \<Rightarrow> Inl e
      | Inr None \<Rightarrow>
          resolve_refs TEXTURE_EXTS index primary rest (textures, missing @ [tex], replacements)
      | Inr (Some (fs, actual_rel)) \<Rightarrow>
          resolve_refs TEXTURE_EXTS index primary rest
            (textures @ [(fs, actual_rel)], missing,
             if as_posix actual_rel \<noteq> tex then dict_set replacements tex (as_posix actual_rel)
             else replacements))"

text \<open>\<open>skin.collect_assets_for_skin\<close>. The model file of a primary source is never
  \<open>None\<close> in an index that \<open>build_index\<close> made; the model gives that case an error.\<close>

definition collect_assets_for_skin ::
  "string list \<Rightarrow> fsys \<Rightarrow> asset_index \<Rightarrow> ppath \<Rightarrow> string \<Rightarrow> ppath \<Rightarrow>
   error + ((FileSource \<times> ppath) list \<times> string list \<times> (string \<times> string) list)" where
  "collect_assets_for_skin TEXTURE_EXTS fs index base_dir model_name skin_rel =
     (case dict_get (models index) model_name of
        None \<Rightarrow> Inl ValueError
      | Some entry \<Rightarrow>
          (case find_skin_source entry skin_rel of
             None \<Rightarrow> Inl ValueError
           | Some skin_src \<Rightarrow>
               (case glm (e_primary entry) of
                  None \<Rightarrow> Inl AttributeError
                | Some glm_rel \<Rightarrow>
                    let primary = e_primary entry;
                        glm_src = \<lparr> origin = m_origin primary, container = m_container primary,
                                    rel_path = glm_rel \<rparr>
                    in
                    (case read_text_from_source fs skin_src base_dir of
                       Inl e \<Rightarrow> Inl e
                     | Inr skin_text \<Rightarrow>
                         (case resolve_refs TEXTURE_EXTS index primary
                                 (dict_values (parse_skin_text skin_text)) ([], [], []) of
                            Inl e \<Rightarrow> Inl e
                          | Inr (textures, missing, replacements) \<Rightarrow>
                              (case find_gla index model_name entry of
                                 Inl e \<Rightarrow> Inl e
                               | Inr gla \<Rightarrow>
                                   Inr ([(glm_src, rel_path glm_src), (skin_src, skin_rel)] @
                                        (case gla of None \<Rightarrow> [] | Some gla_src \<Rightarrow> [(gla_src, rel_path gla_src)]) @
                                        textures,
                                        missing, replacements)))))))"

text \<open>The invariant of the lookup tables of an index: no key has an empty list.\<close>

definition nonempty_values :: "('k \<times> 'v list) list \<Rightarrow> bool" where
  "nonempty_values d = (\<forall>k l. dict_get d k = Some l \<longrightarrow> l \<noteq> [])"

text \<open>What the skeleton table of an index holds for a path: the first file source under
  the normalised path.\<close>

definition gla_hit :: "asset_index \<Rightarrow> ppath \<Rightarrow> FileSource option" where
  "gla_hit index p =
     (case dict_get (gla_index index) (normalize_rel_path p) of
        Some (fs # rest) \<Rightarrow> Some fs
      | _ \<Rightarrow> None)"

text \<open>For the statement of the order of \<open>resolve_texture\<close>: a suffix that \<open>with_suffix\<close>
  accepts, the path with its suffix replaced, and the pair that \<open>resolve_texture\<close> returns
  for a list of candidates.\<close>

definition valid_suffix :: "string \<Rightarrow> bool" where
  "valid_suffix ext = (os_sep \<notin> set ext \<and> (ext = [] \<or> startswith ext ''.'') \<and> ext \<noteq> ''.'')"

definition replace_suffix :: "ppath \<Rightarrow> string \<Rightarrow> ppath" where
  "replace_suffix p ext = p\<lparr> p_tail := butlast (p_tail p) @ [stem p @ ext] \<rparr>"

definition chosen :: "ModelSource option \<Rightarrow> FileSource list \<Rightarrow> error + (FileSource \<times> ppath) option" where
  "chosen preferred fs_list =
     (case choose_source preferred fs_list of
        Inl e \<Rightarrow> Inl e
      | Inr fs \<Rightarrow> Inr (Some (fs, rel_path fs)))"

section \<open>Writing to the file system\<close>

text \<open>\<open>Path.parent\<close>: a path without components is its own parent.\<close>

definition parent :: "ppath \<Rightarrow> ppath" where
  "parent p = p\<lparr> p_tail := butlast (p_tail p) \<rparr>"

text \<open>
  \<open>p.mkdir(parents=True, exist_ok=True)\<close>: the directories along the path are made where
  they are missing, in the order of the path; a file on the way raises.
\<close>

fun mkdirs :: "fsys \<Rightarrow> string list \<Rightarrow> string list \<Rightarrow> error + fsys" where
  "mkdirs fs cur [] = (if node_at fs cur = Some Dir then Inr fs else Inl OSError)"
| "mkdirs fs cur (c # cs) =
     (if node_at fs cur \<noteq> Some Dir then Inl OSError
      else if c = ''..'' then mkdirs fs (butlast cur) cs
      else
        (case node_at fs (cur @ [c]) of
           None \<Rightarrow> mkdirs (fs\<lparr> entries := entries fs @ [(cur @ [c], Dir)] \<rparr>) (cur @ [c]) cs
         | Some Dir \<Rightarrow> mkdirs fs (cur @ [c]) cs
         | Some (File d) \<Rightarrow> Inl OSError))"

definition mkdir_parents :: "fsys \<Rightarrow> ppath \<Rightarrow> error + fsys" where
  "mkdir_parents fs p = mkdirs fs (if p_root p = [] then cwd fs else []) (p_tail p)"

text \<open>\<open>open(p, ''wb'')\<close> and writing \<open>data\<close>: the file is made or replaced; a directory at
  \<open>p\<close> and a path that does not resolve raise.\<close>

definition write_file :: "fsys \<Rightarrow> ppath \<Rightarrow> string \<Rightarrow> error + fsys" where
  "write_file fs p data =
     (case locate fs p of
        None \<Rightarrow> Inl OSError
      | Some loc \<Rightarrow>
          (case node_at fs loc of
             Some Dir \<Rightarrow> Inl OSError
           | _ \<Rightarrow> Inr (fs\<lparr> entries := dict_set (entries fs) loc (File data) \<rparr>)))"

text \<open>\<open>shutil.copy2(src, dst)\<close>: a directory \<open>dst\<close> stands for the file of the name of
  \<open>src\<close> in it; copying a file onto itself raises \<open>SameFileError\<close>.\<close>

definition copy2 :: "fsys \<Rightarrow> ppath \<Rightarrow> ppath \<Rightarrow> error + fsys" where
  "copy2 fs src dst =
     (case node_of fs src of
        Some (File data) \<Rightarrow>
          (let dst' = (if is_dir fs dst then joinpath dst (rel_of [name src]) else dst) in
           if locate fs dst' = locate fs src then Inl OSError else write_file fs dst' data)
      | _ \<Rightarrow> Inl OSError)"

text \<open>\<open>unlink\<close> of a file and \<open>rmdir\<close> of an empty directory, at a location.\<close>

definition remove_entry :: "fsys \<Rightarrow> string list \<Rightarrow> fsys" where
  "remove_entry fs loc = fs\<lparr> entries := filter (\<lambda>(k, n). k \<noteq> loc) (entries fs) \<rparr>"

section \<open>The cache\<close>

text \<open>
  \<open>cache.cleanup_cache\<close>. The keep set is a list that is only tested for membership.
  Nothing but the loop itself changes the tree while it runs, so the enumerations are
  taken before the loops and removing an enumerated entry does not raise. \<open>prune_files\<close>
  is the loop over the files and \<open>prune_dirs\<close> the loop over the sorted directories.
\<close>

definition prune_files :: "fsys \<Rightarrow> string list \<Rightarrow> string list \<Rightarrow> (string list \<times> node) list \<Rightarrow> fsys" where
  "prune_files fs root_loc keep_set found =
     foldl (\<lambda>fs (r, n).
              case n of
                Dir \<Rightarrow> fs
              | File d \<Rightarrow>
                  if normalize_rel_path (rel_of r) \<notin> set keep_set
                  then remove_entry fs (root_loc @ r) else fs)
       fs found"

definition prune_dirs :: "fsys \<Rightarrow> string list \<Rightarrow> string list list \<Rightarrow> fsys" where
  "prune_dirs fs root_loc dirs =
     foldl (\<lambda>fs r. if listdir fs (root_loc @ r) = [] then remove_entry fs (root_loc @ r) else fs)
       fs dirs"

definition cleanup_cache :: "fsys \<Rightarrow> ppath \<Rightarrow> string list \<Rightarrow> fsys" where
  "cleanup_cache fs cache_root keep_set =
     (if \<not> path_exists fs cache_root then fs
      else
        (case locate fs cache_root of
           None \<Rightarrow> fs
         | Some root_loc \<Rightarrow>
             let fs1 = prune_files fs root_loc keep_set (rglob fs cache_root);
                 dirs = sort_key (\<lambda>r. - int (length (parts (joinpath cache_root (rel_of r)))))
                          (map fst (filter (\<lambda>(r, n). n = Dir) (rglob fs1 cache_root)))
             in prune_dirs fs1 root_loc dirs))"

text \<open>The copy of one asset in \<open>cache.extract_assets\<close>: what stands in the \<open>try\<close> block.\<close>

definition copy_asset :: "fsys \<Rightarrow> ppath \<Rightarrow> FileSource \<Rightarrow> ppath \<Rightarrow> error + fsys" where
  "copy_asset fs base_dir src dest_path =
     (if origin src = ''disk'' then copy2 fs (joinpath base_dir (rel_path src)) dest_path
      else
        (case container src of
           None \<Rightarrow> Inl AttributeError
         | Some c \<Rightarrow>
             (case open_pk3 fs c of
                Inl e \<Rightarrow> Inl e
              | Inr infos \<Rightarrow>
                  (case zip_read infos (as_posix (rel_path src)) of
                     Inl e \<Rightarrow> Inl e
                   | Inr data \<Rightarrow> write_file fs dest_path data))))"

text \<open>The loop of \<open>extract_assets\<close> over the assets; the state is the tree,
  \<open>texture_map\<close>, \<open>keep\<close> and \<open>failed\<close>. An exception of \<open>mkdir\<close> is not caught.\<close>

fun extract_loop ::
  "string list \<Rightarrow> ppath \<Rightarrow> ppath \<Rightarrow> (FileSource \<times> ppath) list \<Rightarrow>
   fsys \<times> (string \<times> string) list \<times> string list \<times> string list \<Rightarrow>
   error + (fsys \<times> (string \<times> string) list \<times> string list \<times> string list)" where
  "extract_loop TEXTURE_EXTS base_dir cache_root [] st = Inr st"
| "extract_loop TEXTURE_EXTS base_dir cache_root ((src, dest_rel) # rest) (fs, texture_map, keep, failed) =
     (let keep' = set_add keep (normalize_rel_path dest_rel);
          dest_path = joinpath cache_root dest_rel
      in
      case mkdir_parents fs (parent dest_path) of
        Inl e \<Rightarrow> Inl e
      | Inr fs1 \<Rightarrow>
          (case copy_asset fs1 base_dir src dest_path of
             Inl e \<Rightarrow>
               extract_loop TEXTURE_EXTS base_dir cache_root rest
                 (fs1, texture_map, keep', failed @ [as_posix dest_rel])
           | Inr fs2 \<Rightarrow>
               extract_loop TEXTURE_EXTS base_dir cache_root rest
                 (fs2,
                  if lower (suffix dest_path) \<in> set TEXTURE_EXTS
                  then dict_set texture_map (lower (stem dest_path)) (as_posix dest_path)
                  else texture_map,
                  keep', failed)))"

text \<open>\<open>cache.extract_assets\<close>: the tree after the call, \<open>texture_map\<close> and \<open>failed\<close>.\<close>

definition extract_assets ::
  "string list \<Rightarrow> fsys \<Rightarrow> ppath \<Rightarrow> ppath \<Rightarrow> (FileSource \<times> ppath) list \<Rightarrow>
   error + (fsys \<times> (string \<times> string) list \<times> string list)" where
  "extract_assets TEXTURE_EXTS fs base_dir cache_root assets =
     (case mkdir_parents fs cache_root of
        Inl e \<Rightarrow> Inl e
      | Inr fs0 \<Rightarrow>
          (case extract_loop TEXTURE_EXTS base_dir cache_root assets (fs0, [], [], []) of
             Inl e \<Rightarrow> Inl e
           | Inr (fs1, texture_map, keep, failed) \<Rightarrow>
               Inr (cleanup_cache fs1 cache_root keep, texture_map, failed)))"

section \<open>Extraction from one archive\<close>

text \<open>\<open>Path.resolve()\<close> without symbolic links: the path is made absolute and its \<open>..\<close>
  components are taken out, whether or not the path exists.\<close>

definition resolve :: "fsys \<Rightarrow> ppath \<Rightarrow> ppath" where
  "resolve fs p =
     \<lparr> p_root = (if p_root p = [] then ''/'' else p_root p),
       p_tail = foldl (\<lambda>acc c. if c = ''..'' then butlast acc else acc @ [c]) []
                  ((if p_root p = [] then cwd fs else []) @ p_tail p) \<rparr>"

text \<open>
  \<open>pk3.safe_extract_members\<close>: the loop over the members, with the resolved destination.
  The result is the tree as the call leaves it, also when it raises, and the list of the
  extracted names or the exception; \<open>ArchiveError\<close> is the error of an unsafe path.
\<close>

fun safe_extract_loop ::
  "fsys \<Rightarrow> ppath \<Rightarrow> zipinfo list \<Rightarrow> string list \<Rightarrow> fsys \<times> (error + string list)" where
  "safe_extract_loop fs destination [] extracted = (fs, Inr extracted)"
| "safe_extract_loop fs destination (info # rest) extracted =
     (let target = joinpath destination (Path (filename info));
          resolved_target = resolve fs target
      in
      if \<not> startswith (as_posix resolved_target) (as_posix destination) then (fs, Inl ArchiveError)
      else if z_is_dir info then
        (case mkdir_parents fs resolved_target of
           Inl e \<Rightarrow> (fs, Inl e)
         | Inr fs1 \<Rightarrow> safe_extract_loop fs1 destination rest extracted)
      else
        (case mkdir_parents fs (parent resolved_target) of
           Inl e \<Rightarrow> (fs, Inl e)
         | Inr fs1 \<Rightarrow>
             (case write_file fs1 resolved_target (z_data info) of
                Inl e \<Rightarrow> (fs1, Inl e)
              | Inr fs2 \<Rightarrow> safe_extract_loop fs2 destination rest (extracted @ [filename info]))))"

definition safe_extract_members ::
  "fsys \<Rightarrow> ppath \<Rightarrow> zipinfo list \<Rightarrow> fsys \<times> (error + string list)" where
  "safe_extract_members fs destination members =
     safe_extract_loop fs (resolve fs destination) members []"

text \<open>A path is below another one when it has the same root and the components of the
  other one are the first of its own.\<close>

definition descendant_of :: "ppath \<Rightarrow> ppath \<Rightarrow> bool" where
  "descendant_of p d =
     (p_root p = p_root d \<and> take (length (p_tail d)) (p_tail p) = p_tail d)"

section \<open>Well-formed trees and plain paths\<close>

text \<open>A tree in which no location has two entries.\<close>

definition wf_tree :: "fsys \<Rightarrow> bool" where
  "wf_tree fs = distinct (map fst (entries fs))"

text \<open>A relative path without \<open>..\<close> components.\<close>

definition plain :: "ppath \<Rightarrow> bool" where
  "plain p = (p_root p = [] \<and> ''..'' \<notin> set (p_tail p))"

text \<open>\<open>grows fs fs'\<close>: the same working directory and ZIP reader, and every directory of
  \<open>fs\<close> is a directory of \<open>fs'\<close> and every file of \<open>fs\<close> a file of \<open>fs'\<close>, whatever it
  holds.\<close>

definition grows :: "fsys \<Rightarrow> fsys \<Rightarrow> bool" where
  "grows fs fs' =
     (cwd fs' = cwd fs \<and> zipfile fs' = zipfile fs \<and>
      (\<forall>l. node_at fs l = Some Dir \<longrightarrow> node_at fs' l = Some Dir) \<and>
      (\<forall>l d. node_at fs l = Some (File d) \<longrightarrow> (\<exists>d'. node_at fs' l = Some (File d'))))"

text \<open>The locations of the files below a location, relative to it.\<close>

definition files_below :: "fsys \<Rightarrow> string list \<Rightarrow> string list set" where
  "files_below fs loc = {r. \<exists>d. (r, File d) \<in> set (rscan fs loc)}"

text \<open>Two trees that hold the same entries, enumerated in whatever order.\<close>

definition same_entries :: "fsys \<Rightarrow> fsys \<Rightarrow> bool" where
  "same_entries fs fs' =
     (cwd fs' = cwd fs \<and> zipfile fs' = zipfile fs \<and> set (entries fs') = set (entries fs))"

text \<open>The source that the scan has stored for a model name under a key.\<close>

definition slots :: "scan \<Rightarrow> string \<Rightarrow> ppath \<Rightarrow> ModelSource option" where
  "slots s nm key =
     (case dict_get (models_tmp s) nm of None \<Rightarrow> None | Some e \<Rightarrow> dict_get (t_sources e) key)"

text \<open>What the last loop of \<open>build_index\<close> uses of a source: its priority, whether it has
  a model file, and its skin files.\<close>

definition abs_source :: "ModelSource \<Rightarrow> (nat \<times> nat) \<times> bool \<times> ppath set" where
  "abs_source src = (source_priority src, glm src \<noteq> None, set (skins src))"

text \<open>The stored source of a slot, or the fresh source of a model directory on disk.\<close>

definition slot_or :: "scan \<Rightarrow> string \<Rightarrow> ppath \<Rightarrow> ModelSource" where
  "slot_or s nm key = (case slots s nm key of None \<Rightarrow> disk_source | Some src \<Rightarrow> src)"

text \<open>No model name and no key of a model name is held twice.\<close>

definition distinct_keys :: "scan \<Rightarrow> bool" where
  "distinct_keys s =
     (distinct (map fst (models_tmp s)) \<and>
      (\<forall>nm e. dict_get (models_tmp s) nm = Some e \<longrightarrow> distinct (map fst (t_sources e))))"

section \<open>Sample inputs\<close>

text \<open>The extensions that the samples take for \<open>TEXTURE_EXTS\<close>.\<close>

definition sample_exts :: "string list" where
  "sample_exts = [''.jpg'', ''.png'', ''.tga'']"

definition member :: "string \<Rightarrow> string \<Rightarrow> zipinfo" where
  "member nm data = \<lparr> filename = nm, z_is_dir = False, z_data = data \<rparr>"

text \<open>A game directory \<open>/g\<close> with the model \<open>kyle\<close> on disk, in \<open>assets1.pk3\<close> and in
  \<open>zz.pk3\<close>.\<close>

definition sample_tree :: fsys where
  "sample_tree =
     \<lparr> cwd = [],
       entries =
         [([''g''], Dir),
          ([''g'', ''zz.pk3''], File ''ZZ''),
          ([''g'', ''assets1.pk3''], File ''A1''),
          ([''g'', ''models''], Dir),
          ([''g'', ''models'', ''players''], Dir),
          ([''g'', ''models'', ''players'', ''kyle''], Dir),
          ([''g'', ''models'', ''players'', ''kyle'', ''model.glm''], File ''GLM0''),
          ([''g'', ''models'', ''players'', ''kyle'', ''model_default.skin''], File ''head,textures/x'')],
       zipfile = (\<lambda>data.
         if data = ''A1'' then
           Some [member ''models/players/kyle/model.glm'' ''GLM1'',
                 member ''models/players/kyle/model_red.skin'' ''head,models/players/kyle/red.jpg'',
                 member ''models/players/kyle/red.jpg'' ''RED'']
         else if data = ''ZZ'' then
           Some [member ''models/players/kyle/model.glm'' ''GLM2'',
                 member ''anything/x.png'' ''PNG'',
                 member ''models/players/_humanoid/_humanoid.gla'' ''GLA'']
         else None) \<rparr>"

text \<open>An empty destination directory \<open>/tmp/out\<close>.\<close>

definition out_tree :: fsys where
  "out_tree =
     \<lparr> cwd = [],
       entries = [([''tmp''], Dir), ([''tmp'', ''out''], Dir)],
       zipfile = (\<lambda>data. None) \<rparr>"

text \<open>A game directory \<open>/g\<close> with one archive: the model \<open>kyle\<close> with one skin, whose
  texture lies elsewhere in the archive under another extension, and no skeleton.\<close>

definition bare_tree :: fsys where
  "bare_tree =
     \<lparr> cwd = [],
       entries = [([''g''], Dir), ([''g'', ''a.pk3''], File ''A'')],
       zipfile = (\<lambda>data.
         if data = ''A'' then
           Some [member ''models/players/kyle/model.glm'' ''GLM'',
                 member ''models/players/kyle/model_default.skin'' ''head,textures/x'',
                 member ''anything/x.png'' ''PNG'']
         else None) \<rparr>"

definition bare_index :: asset_index where
  "bare_index = projr (build_index sample_exts bare_tree (Path ''/g''))"

definition sample_index :: asset_index where
  "sample_index = projr (build_index sample_exts sample_tree (Path ''/g''))"


text \<open>A game directory \<open>/g\<close> with one archive: the model \<open>kyle\<close> with a skin whose line
  \<open>head,\<close> binds the empty texture reference, and a skin that names a texture that does not
  exist.\<close>

definition empty_ref_tree :: fsys where
  "empty_ref_tree =
     \<lparr> cwd = [],
       entries = [([''g''], Dir), ([''g'', ''a.pk3''], File ''A'')],
       zipfile = (\<lambda>data.
         if data = ''A'' then
           Some [member ''models/players/kyle/model.glm'' ''GLM'',
                 member ''models/players/kyle/model_default.skin'' ''head,'',
                 member ''models/players/kyle/model_other.skin'' ''head,nosuch'']
         else None) \<rparr>"

definition empty_ref_index :: asset_index where
  "empty_ref_index = projr (build_index sample_exts empty_ref_tree (Path ''/g''))"

text \<open>A game directory \<open>/g\<close> with one texture on disk and a cache \<open>/g/cache\<close> that holds
  the file \<open>b.jpg\<close> of an earlier run; \<open>disk_asset\<close> names a file on disk with its
  destination.\<close>

definition cache_tree :: fsys where
  "cache_tree =
     \<lparr> cwd = [],
       entries =
         [([''g''], Dir),
          ([''g'', ''textures''], Dir),
          ([''g'', ''textures'', ''x.jpg''], File ''NEW''),
          ([''g'', ''cache''], Dir),
          ([''g'', ''cache'', ''b.jpg''], File ''OLD'')],
       zipfile = (\<lambda>data. None) \<rparr>"

definition disk_asset :: "string \<Rightarrow> string \<Rightarrow> FileSource \<times> ppath" where
  "disk_asset src dest = (\<lparr> origin = ''disk'', container = None, rel_path = Path src \<rparr>, Path dest)"

text \<open>The same with a directory \<open>a\<close> in the cache, and with a directory in the cache where
  the texture is to go.\<close>

definition dotdot_tree :: fsys where
  "dotdot_tree = cache_tree\<lparr> entries := entries cache_tree @ [([''g'', ''cache'', ''a''], Dir)] \<rparr>"


text \<open>The first game directory with its entries enumerated in the opposite order.\<close>

definition sample_tree_rev :: fsys where
  "sample_tree_rev = sample_tree\<lparr> entries := rev (entries sample_tree) \<rparr>"

definition sample_index_rev :: asset_index where
  "sample_index_rev = projr (build_index sample_exts sample_tree_rev (Path ''/g''))"

section \<open>Path normalisation\<close>

lemma lower_char_idem: "lower_char (lower_char c) = lower_char c"
  by (auto simp: lower_char_def Let_def)

lemma lower_idem: "lower (lower s) = lower s"
  by (simp add: lower_def lower_char_idem)



























section \<open>Skin parsing\<close>

lemma map_of_dict_set: "map_of (dict_set d k v) = (map_of d)(k \<mapsto> v)"
  by (induction d) (auto simp: fun_upd_twist)

lemma dict_set_keys: "fst ` set (dict_set d k v) = insert k (fst ` set d)"
proof (induction d)
  case Nil
  then show ?case by simp
next
  case (Cons a d)
  obtain k' v' where a: "a = (k', v')" by (cases a)
  show ?case
  proof (cases "k' = k")
    case True
    then show ?thesis using a by auto
  next
    case False
    then show ?thesis using a Cons by auto
  qed
qed

lemma distinct_dict_set: "distinct (map fst d) \<Longrightarrow> distinct (map fst (dict_set d k v))"
proof (induction d)
  case Nil
  then show ?case by simp
next
  case (Cons a d)
  obtain k' v' where a: "a = (k', v')" by (cases a)
  show ?case
  proof (cases "k' = k")
    case True
    then show ?thesis using Cons a by simp
  next
    case False
    have "fst ` set (dict_set d k v) = insert k (fst ` set d)" by (rule dict_set_keys)
    then show ?thesis using Cons a False by auto
  qed
qed





section \<open>The primary source\<close>

lemma sort_key_head:
  assumes "sort_key f xs = p # others"
  shows "p \<in> set xs" "\<forall>s \<in> set xs. f p \<le> f s" "find (\<lambda>s. f s = f p) xs = Some p"
proof -
  have "set (sort_key f xs) = set xs" by simp
  then show m: "p \<in> set xs" using assms by (metis list.set_intros(1))
  have "sorted (map f (sort_key f xs))" by (rule sorted_sort_key)
  then have "\<forall>s \<in> set others. f p \<le> f s" using assms by simp
  moreover have "set xs = insert p (set others)"
    using \<open>set (sort_key f xs) = set xs\<close> assms by simp
  ultimately show "\<forall>s \<in> set xs. f p \<le> f s" by auto
  have "filter (\<lambda>y. f y = f p) (sort_key f xs) = filter (\<lambda>y. f y = f p) xs"
    by (rule sort_key_stable)
  then have "filter (\<lambda>y. f y = f p) xs = p # filter (\<lambda>y. f y = f p) others"
    using assms by simp
  then show "find (\<lambda>s. f s = f p) xs = Some p"
    by (induction xs) (auto split: if_splits)
qed

lemma finish_models_acc:
  assumes "dict_get (foldl (\<lambda>ms (nm, data). case finish_entry data of None \<Rightarrow> ms | Some e \<Rightarrow> dict_set ms nm e) acc tmp) nm = Some entry"
  shows "dict_get acc nm = Some entry \<or> (\<exists>data. (nm, data) \<in> set tmp \<and> finish_entry data = Some entry)"
  using assms
proof (induction tmp arbitrary: acc)
  case Nil
  then show ?case by simp
next
  case (Cons a tmp)
  obtain n d where a: "a = (n, d)" by (cases a)
  show ?case
  proof (cases "finish_entry d")
    case None
    then show ?thesis using Cons.IH[of acc] Cons.prems a by auto
  next
    case (Some e)
    then have "dict_get (dict_set acc n e) nm = Some entry \<or>
       (\<exists>data. (nm, data) \<in> set tmp \<and> finish_entry data = Some entry)"
      using Cons.IH[of "dict_set acc n e"] Cons.prems a by simp
    then show ?thesis using Some a
      by (auto simp: dict_get_def map_of_dict_set split: if_splits)
  qed
qed

lemma finish_models_entry:
  assumes "dict_get (finish_models tmp) nm = Some entry"
  shows "\<exists>data. (nm, data) \<in> set tmp \<and> finish_entry data = Some entry"
  using finish_models_acc[of "[]" tmp nm entry] assms by (simp add: finish_models_def dict_get_def)

lemma finish_entry_primary:
  assumes "finish_entry data = Some entry"
  shows "sort_key source_priority (filter (\<lambda>s. glm s \<noteq> None) (e_sources entry)) \<noteq> [] \<and>
         e_primary entry = hd (sort_key source_priority (filter (\<lambda>s. glm s \<noteq> None) (e_sources entry)))"
  using assms by (auto simp: finish_entry_def Let_def split: list.splits)

lemma build_index_models:
  assumes "build_index E fs base_dir = Inr idx" "dict_get (models idx) nm = Some entry"
  shows "\<exists>data. finish_entry data = Some entry"
proof -
  from assms(1) obtain tmp where "models idx = finish_models tmp"
    by (auto simp: build_index_def Let_def split: sum.splits)
  then show ?thesis using finish_models_entry assms(2) by metis
qed

lemma source_priority_classes:
  "source_priority s = (0, 0) \<longleftrightarrow> m_origin s = ''disk''"
  "source_priority s = (1, 0) \<longleftrightarrow> m_origin s \<noteq> ''disk'' \<and> (\<exists>c. m_container s = Some c \<and> lower (name c) = ''assets1.pk3'')"
  "source_priority s = (1, 1) \<longleftrightarrow> m_origin s \<noteq> ''disk'' \<and> \<not> (\<exists>c. m_container s = Some c \<and> lower (name c) = ''assets1.pk3'')"
  "((0::nat, 0::nat) < (1, 0)) \<and> ((1::nat, 0::nat) < (1, 1))"
  by (auto simp: source_priority_def split: option.splits)

text \<open>
  C3: in an index that \<open>build_index\<close> returns, the primary source of every model is one
  of its sources with a model file, no such source has a smaller priority tuple, and it
  is the first of them with that tuple (the sort is stable). The tuples order the
  sources as on disk, then the archive named \<open>assets1.pk3\<close>, then the other archives.
  So the primary source is the one on disk whenever a source on disk has a model file.
\<close>

theorem build_index_primary_by_priority:
  assumes "build_index TEXTURE_EXTS fs base_dir = Inr idx"
    and "dict_get (models idx) nm = Some entry"
  shows "let glm_sources = filter (\<lambda>s. glm s \<noteq> None) (e_sources entry);
             primary = e_primary entry
         in primary \<in> set glm_sources \<and>
            (\<forall>s \<in> set glm_sources. source_priority primary \<le> source_priority s) \<and>
            find (\<lambda>s. source_priority s = source_priority primary) glm_sources = Some primary \<and>
            (\<forall>s. (source_priority s = (0, 0) \<longleftrightarrow> m_origin s = ''disk'') \<and>
                 (source_priority s = (1, 0) \<longleftrightarrow>
                    m_origin s \<noteq> ''disk'' \<and>
                    (\<exists>c. m_container s = Some c \<and> lower (name c) = ''assets1.pk3'')) \<and>
                 (source_priority s = (1, 1) \<longleftrightarrow>
                    m_origin s \<noteq> ''disk'' \<and>
                    \<not> (\<exists>c. m_container s = Some c \<and> lower (name c) = ''assets1.pk3''))) \<and>
            ((0::nat, 0::nat) < (1, 0)) \<and> ((1::nat, 0::nat) < (1, 1)) \<and>
            ((\<exists>s \<in> set glm_sources. m_origin s = ''disk'') \<longrightarrow> m_origin primary = ''disk'')"
proof -
  let ?gs = "filter (\<lambda>s. glm s \<noteq> None) (e_sources entry)"
  let ?p = "e_primary entry"
  from build_index_models[OF assms] obtain data where "finish_entry data = Some entry" ..
  then have ne: "sort_key source_priority ?gs \<noteq> []"
    and hd: "?p = hd (sort_key source_priority ?gs)"
    using finish_entry_primary by blast+
  then obtain others where srt: "sort_key source_priority ?gs = ?p # others"
    by (cases "sort_key source_priority ?gs") auto
  note h = sort_key_head[OF srt]
  have disk: "m_origin ?p = ''disk''" if "\<exists>s \<in> set ?gs. m_origin s = ''disk''"
  proof -
    from that obtain s where s: "s \<in> set ?gs" "m_origin s = ''disk''" by blast
    then have "source_priority ?p \<le> source_priority s" using h(2) by blast
    moreover have "source_priority s = (0, 0)" using s(2) by (simp add: source_priority_classes)
    ultimately have "source_priority ?p = (0, 0)"
      by (cases "source_priority ?p") (auto simp: less_eq_prod_def)
    then show ?thesis by (simp add: source_priority_classes)
  qed
  show ?thesis
    unfolding Let_def
    using h disk source_priority_classes by blast
qed

theorem build_index_primary_by_priority_witness:
  "(case build_index sample_exts sample_tree (Path ''/g'') of
      Inl e \<Rightarrow> False
    | Inr idx \<Rightarrow>
        (case dict_get (models idx) ''kyle'' of
           None \<Rightarrow> False
         | Some entry \<Rightarrow>
             map m_origin (filter (\<lambda>s. glm s \<noteq> None) (e_sources entry)) = [''pk3'', ''pk3'', ''disk''] \<and>
             m_origin (e_primary entry) = ''disk''))"
proof -
  have h: "(case build_index sample_exts sample_tree (Path ''/g'') of
      Inl e \<Rightarrow> False
    | Inr idx \<Rightarrow>
        (case dict_get (models idx) ''kyle'' of
           None \<Rightarrow> False
         | Some entry \<Rightarrow>
             map m_origin (filter (\<lambda>s. glm s \<noteq> None) (e_sources entry)) = [''pk3'', ''pk3'', ''disk'']))"
    by code_simp
  show ?thesis
  proof (cases "build_index sample_exts sample_tree (Path ''/g'')")
    case (Inl e)
    with h show ?thesis by simp
  next
    case (Inr idx)
    show ?thesis
    proof (cases "dict_get (models idx) ''kyle''")
      case None
      with h Inr show ?thesis by simp
    next
      case (Some entry)
      let ?gs = "filter (\<lambda>s. glm s \<noteq> None) (e_sources entry)"
      from h Inr Some have 3: "map m_origin ?gs = [''pk3'', ''pk3'', ''disk'']" by simp
      then have "''disk'' \<in> set (map m_origin ?gs)" by simp
      then have "\<exists>s \<in> set ?gs. m_origin s = ''disk''" by auto
      with build_index_primary_by_priority[OF Inr Some] have "m_origin (e_primary entry) = ''disk''"
        by (simp add: Let_def)
      with Inr Some 3 show ?thesis by simp
    qed
  qed
qed

section \<open>The traversal guard\<close>

text \<open>
  C1, at the member \<open>../outside.txt\<close> and the destination \<open>/tmp/out\<close>: the resolved
  target \<open>/tmp/outside.txt\<close> is not below the destination, but its text starts with the
  text of the destination, so \<open>safe_extract_members\<close> raises nothing, reports the member
  as extracted and writes the file outside the destination. A member whose resolved
  target does not start with that text, such as \<open>../zzz.txt\<close>, is refused with nothing
  written.
\<close>

theorem safe_extract_members_prefix_escape:
  "\<not> descendant_of (resolve out_tree (joinpath (Path ''/tmp/out'') (Path ''../outside.txt'')))
        (resolve out_tree (Path ''/tmp/out'')) \<and>
   snd (safe_extract_members out_tree (Path ''/tmp/out'') [member ''../outside.txt'' ''X'']) =
     Inr [''../outside.txt''] \<and>
   entries (fst (safe_extract_members out_tree (Path ''/tmp/out'') [member ''../outside.txt'' ''X''])) =
     [([''tmp''], Dir), ([''tmp'', ''out''], Dir), ([''tmp'', ''outside.txt''], File ''X'')] \<and>
   snd (safe_extract_members out_tree (Path ''/tmp/out'') [member ''../zzz.txt'' ''X'']) =
     Inl ArchiveError \<and>
   entries (fst (safe_extract_members out_tree (Path ''/tmp/out'') [member ''../zzz.txt'' ''X''])) =
     [([''tmp''], Dir), ([''tmp'', ''out''], Dir)]"
  by code_simp

section \<open>The skeleton file\<close>

lemma foldl_invariant:
  assumes "P s" "\<And>s x. P s \<Longrightarrow> P (f s x)"
  shows "P (foldl f s xs)"
  using assms(1) by (induction xs arbitrary: s) (auto intro: assms(2))

lemma nonempty_values_dict_append:
  "nonempty_values d \<Longrightarrow> nonempty_values (dict_append d k v)"
  by (auto simp: nonempty_values_def dict_append_def dict_get_def map_of_dict_set split: if_splits)

lemma gla_add_texture [simp]: "s_gla_index (add_texture s rel orig cont) = s_gla_index s"
  by (simp add: add_texture_def Let_def)

lemma gla_put_source [simp]: "s_gla_index (put_source s nm entry key src) = s_gla_index s"
  by (simp add: put_source_def)

lemma gla_add_gla:
  "nonempty_values (s_gla_index s) \<Longrightarrow> nonempty_values (s_gla_index (add_gla s rel orig cont))"
  by (simp add: add_gla_def Let_def nonempty_values_dict_append)

lemma gla_scan_member:
  "nonempty_values (s_gla_index s) \<Longrightarrow>
   nonempty_values (s_gla_index (scan_member TEXTURE_EXTS pk3_path s info))"
  by (simp add: scan_member_def Let_def gla_add_gla)

lemma gla_scan_archives:
  "nonempty_values (s_gla_index s) \<Longrightarrow> scan_archives TEXTURE_EXTS fs ps s = Inr s' \<Longrightarrow>
   nonempty_values (s_gla_index s')"
proof (induction ps arbitrary: s)
  case Nil
  then show ?case by simp
next
  case (Cons p ps)
  show ?case
  proof (cases "open_pk3 fs p")
    case (Inl e)
    then show ?thesis using Cons by (cases e) (auto simp: should_skip_pk3_def)
  next
    case (Inr infos)
    have "nonempty_values (s_gla_index (foldl (scan_member TEXTURE_EXTS p) s infos))"
      by (rule foldl_invariant) (auto simp: Cons.prems(1) gla_scan_member)
    then show ?thesis using Cons Inr by (auto simp: should_skip_pk3_def)
  qed
qed

lemma gla_scan_textures:
  "nonempty_values (s_gla_index s) \<Longrightarrow>
   nonempty_values (s_gla_index (scan_textures TEXTURE_EXTS fs loc pre s))"
  unfolding scan_textures_def
  by (rule foldl_invariant) (auto split: node.splits)

lemma gla_scan_disk_skin [simp]: "s_gla_index (scan_disk_skin dname key s rel) = s_gla_index s"
  by (simp add: scan_disk_skin_def Let_def)

lemma gla_scan_disk_gla:
  "nonempty_values (s_gla_index s) \<Longrightarrow> nonempty_values (s_gla_index (scan_disk_gla dname key s rel))"
  by (simp add: scan_disk_gla_def Let_def gla_add_gla)

lemma gla_foldl_skin [simp]: "s_gla_index (foldl (scan_disk_skin dname key) s rels) = s_gla_index s"
  by (induction rels arbitrary: s) auto

lemma gla_scan_model_dir:
  assumes "nonempty_values (s_gla_index s)"
  shows "nonempty_values (s_gla_index (scan_model_dir TEXTURE_EXTS fs base_dir models_loc s child))"
proof -
  have "nonempty_values (s_gla_index (foldl (scan_disk_gla dname key) s' rels))"
    if "nonempty_values (s_gla_index s')" for dname key s' rels
    by (rule foldl_invariant) (auto simp: that gla_scan_disk_gla)
  then show ?thesis
    using assms
    by (auto simp: scan_model_dir_def Let_def gla_scan_textures split: prod.splits node.splits option.splits)
qed

lemma build_index_gla_nonempty:
  assumes "build_index TEXTURE_EXTS fs base_dir = Inr index"
  shows "nonempty_values (gla_index index)"
proof -
  from assms obtain s1 where s1: "scan_archives TEXTURE_EXTS fs (pk3_paths fs base_dir) empty_scan = Inr s1"
    by (auto simp: build_index_def split: sum.splits)
  have "nonempty_values (s_gla_index empty_scan)"
    by (simp add: empty_scan_def nonempty_values_def dict_get_def)
  then have 1: "nonempty_values (s_gla_index s1)" using s1 by (rule gla_scan_archives)
  have "nonempty_values (s_gla_index (foldl (scan_model_dir TEXTURE_EXTS fs base_dir loc) s1 xs))" for loc xs
    by (rule foldl_invariant) (auto simp: 1 gla_scan_model_dir)
  then have 2: "nonempty_values (s_gla_index (scan_disk_models TEXTURE_EXTS fs base_dir s1))"
    using 1 by (auto simp: scan_disk_models_def Let_def split: option.splits)
  then have 3: "nonempty_values (s_gla_index (scan_loose_textures TEXTURE_EXTS fs base_dir
                   (scan_disk_models TEXTURE_EXTS fs base_dir s1)))"
    by (auto simp: scan_loose_textures_def Let_def gla_scan_textures split: option.splits)
  show ?thesis
    using assms s1 3 by (auto simp: build_index_def Let_def)
qed

lemma resolve_gla_hit:
  "nonempty_values (gla_index index) \<Longrightarrow> resolve_gla index p = Inr (gla_hit index p)"
  by (auto simp: resolve_gla_def gla_hit_def nonempty_values_def split: option.splits list.splits)

lemma first_gla_find:
  assumes "nonempty_values (gla_index index)"
  shows "first_gla index ps =
           Inr (case find (\<lambda>p. gla_hit index p \<noteq> None) ps of None \<Rightarrow> None | Some p \<Rightarrow> gla_hit index p)"
  by (induction ps) (auto simp: resolve_gla_hit[OF assms] split: option.splits)

lemma find_append:
  "find P (xs @ ys) = (case find P xs of None \<Rightarrow> find P ys | Some x \<Rightarrow> Some x)"
  by (induction xs) auto

lemma find_Some_holds: "find P xs = Some x \<Longrightarrow> P x"
  by (induction xs) (auto split: if_splits)

lemma find_gla_find:
  assumes "nonempty_values (gla_index index)"
  shows "find_gla index model_name entry =
           Inr (case find (\<lambda>p. gla_hit index p \<noteq> None)
                       (concat (map glas (e_sources entry)) @ gla_candidates model_name) of
                  None \<Rightarrow> None
                | Some p \<Rightarrow> gla_hit index p)"
proof (cases "find (\<lambda>p. gla_hit index p \<noteq> None) (concat (map glas (e_sources entry)))")
  case None
  then show ?thesis
    by (simp add: find_gla_def first_gla_find[OF assms] find_append)
next
  case (Some p)
  then have "gla_hit index p \<noteq> None" by (rule find_Some_holds)
  then obtain r where "gla_hit index p = Some r" by auto
  then show ?thesis
    using Some by (simp add: find_gla_def first_gla_find[OF assms] find_append)
qed

text \<open>
  C8: on an index that \<open>build_index\<close> returned, \<open>find_gla\<close> raises nothing and returns
  what the skeleton table holds for the first path with an entry in it, among the
  skeleton paths of the sources of the model entry followed by
  \<open>models/players/<model>/<model>.gla\<close>, \<open>models/players/<model>/model.gla\<close> and
  \<open>models/players/_humanoid/_humanoid.gla\<close>, in this order; it returns \<open>None\<close> when none
  of them has an entry. When it returns \<open>None\<close>, \<open>collect_assets_for_skin\<close> is what it is
  without the skeleton step: the asset list is the model file, the skin file and the
  textures, and no error comes from the skeleton.
\<close>

theorem find_gla_resolution_order:
  assumes "build_index TEXTURE_EXTS fs base_dir = Inr index"
  shows "find_gla index model_name entry =
           Inr (case find (\<lambda>p. gla_hit index p \<noteq> None)
                       (concat (map glas (e_sources entry)) @
                        [Path (''models/players/'' @ model_name @ ''/'' @ model_name @ ''.gla''),
                         Path (''models/players/'' @ model_name @ ''/model.gla''),
                         Path ''models/players/_humanoid/_humanoid.gla'']) of
                  None \<Rightarrow> None
                | Some p \<Rightarrow> gla_hit index p) \<and>
         (\<forall>p. resolve_gla index p = Inr (gla_hit index p)) \<and>
         (find_gla index model_name entry = Inr None \<longrightarrow>
          dict_get (models index) model_name = Some entry \<longrightarrow>
          collect_assets_for_skin TEXTURE_EXTS fs index base_dir model_name skin_rel =
            (case find_skin_source entry skin_rel of
               None \<Rightarrow> Inl ValueError
             | Some skin_src \<Rightarrow>
                 (case glm (e_primary entry) of
                    None \<Rightarrow> Inl AttributeError
                  | Some glm_rel \<Rightarrow>
                      (case read_text_from_source fs skin_src base_dir of
                         Inl e \<Rightarrow> Inl e
                       | Inr skin_text \<Rightarrow>
                           (case resolve_refs TEXTURE_EXTS index (e_primary entry)
                                   (dict_values (parse_skin_text skin_text)) ([], [], []) of
                              Inl e \<Rightarrow> Inl e
                            | Inr (textures, missing, replacements) \<Rightarrow>
                                Inr ([(\<lparr> origin = m_origin (e_primary entry),
                                         container = m_container (e_primary entry),
                                         rel_path = glm_rel \<rparr>, glm_rel),
                                      (skin_src, skin_rel)] @ textures,
                                     missing, replacements))))))"
proof (intro conjI allI impI)
  have ne: "nonempty_values (gla_index index)"
    using assms by (rule build_index_gla_nonempty)
  show "find_gla index model_name entry =
           Inr (case find (\<lambda>p. gla_hit index p \<noteq> None)
                       (concat (map glas (e_sources entry)) @
                        [Path (''models/players/'' @ model_name @ ''/'' @ model_name @ ''.gla''),
                         Path (''models/players/'' @ model_name @ ''/model.gla''),
                         Path ''models/players/_humanoid/_humanoid.gla'']) of
                  None \<Rightarrow> None
                | Some p \<Rightarrow> gla_hit index p)"
    using find_gla_find[OF ne, of model_name entry] by (simp only: gla_candidates_def)
  show "resolve_gla index p = Inr (gla_hit index p)" for p
    using ne by (rule resolve_gla_hit)
next
  assume g: "find_gla index model_name entry = Inr None"
    and m: "dict_get (models index) model_name = Some entry"
  show "collect_assets_for_skin TEXTURE_EXTS fs index base_dir model_name skin_rel =
            (case find_skin_source entry skin_rel of
               None \<Rightarrow> Inl ValueError
             | Some skin_src \<Rightarrow>
                 (case glm (e_primary entry) of
                    None \<Rightarrow> Inl AttributeError
                  | Some glm_rel \<Rightarrow>
                      (case read_text_from_source fs skin_src base_dir of
                         Inl e \<Rightarrow> Inl e
                       | Inr skin_text \<Rightarrow>
                           (case resolve_refs TEXTURE_EXTS index (e_primary entry)
                                   (dict_values (parse_skin_text skin_text)) ([], [], []) of
                              Inl e \<Rightarrow> Inl e
                            | Inr (textures, missing, replacements) \<Rightarrow>
                                Inr ([(\<lparr> origin = m_origin (e_primary entry),
                                         container = m_container (e_primary entry),
                                         rel_path = glm_rel \<rparr>, glm_rel),
                                      (skin_src, skin_rel)] @ textures,
                                     missing, replacements)))))"
    by (simp add: collect_assets_for_skin_def g m Let_def split: option.splits sum.splits prod.splits)
qed

theorem find_gla_resolution_order_witness:
  "build_index sample_exts bare_tree (Path ''/g'') = Inr bare_index \<and>
   dict_get (models bare_index) ''kyle'' \<noteq> None \<and>
   find_gla bare_index ''kyle'' (the (dict_get (models bare_index) ''kyle'')) = Inr None \<and>
   (case collect_assets_for_skin sample_exts bare_tree bare_index (Path ''/g'') ''kyle''
           (Path ''models/players/kyle/model_default.skin'') of
      Inl e \<Rightarrow> False
    | Inr (assets, missing, replacements) \<Rightarrow>
        map (\<lambda>(src, dest). as_posix dest) assets =
          [''models/players/kyle/model.glm'', ''models/players/kyle/model_default.skin'',
           ''anything/x.png'']) \<and>
   build_index sample_exts sample_tree (Path ''/g'') = Inr sample_index \<and>
   map_option rel_path (projr (find_gla sample_index ''kyle'' (the (dict_get (models sample_index) ''kyle'')))) =
     Some (Path ''models/players/_humanoid/_humanoid.gla'')"
proof -
  let ?entry = "the (dict_get (models bare_index) ''kyle'')"
  let ?skin = "Path ''models/players/kyle/model_default.skin''"
  have b: "build_index sample_exts bare_tree (Path ''/g'') = Inr bare_index"
    unfolding bare_index_def by code_simp
  have e: "dict_get (models bare_index) ''kyle'' = Some ?entry"
    unfolding bare_index_def by code_simp
  have f: "find (\<lambda>p. gla_hit bare_index p \<noteq> None)
             (concat (map glas (e_sources ?entry)) @
              [Path (''models/players/'' @ ''kyle'' @ ''/'' @ ''kyle'' @ ''.gla''),
               Path (''models/players/'' @ ''kyle'' @ ''/model.gla''),
               Path ''models/players/_humanoid/_humanoid.gla'']) = None"
    unfolding bare_index_def by code_simp
  note t = find_gla_resolution_order[OF b, of "''kyle''" ?entry ?skin]
  from t f have g: "find_gla bare_index ''kyle'' ?entry = Inr None" by simp
  have r: "(case (case find_skin_source ?entry ?skin of
               None \<Rightarrow> Inl ValueError
             | Some skin_src \<Rightarrow>
                 (case glm (e_primary ?entry) of
                    None \<Rightarrow> Inl AttributeError
                  | Some glm_rel \<Rightarrow>
                      (case read_text_from_source bare_tree skin_src (Path ''/g'') of
                         Inl e \<Rightarrow> Inl e
                       | Inr skin_text \<Rightarrow>
                           (case resolve_refs sample_exts bare_index (e_primary ?entry)
                                   (dict_values (parse_skin_text skin_text)) ([], [], []) of
                              Inl e \<Rightarrow> Inl e
                            | Inr (textures, missing, replacements) \<Rightarrow>
                                Inr ([(\<lparr> origin = m_origin (e_primary ?entry),
                                         container = m_container (e_primary ?entry),
                                         rel_path = glm_rel \<rparr>, glm_rel),
                                      (skin_src, ?skin)] @ textures,
                                     missing, replacements))))) of
      Inl e \<Rightarrow> False
    | Inr (assets, missing, replacements) \<Rightarrow>
        map (\<lambda>(src, dest). as_posix dest) assets =
          [''models/players/kyle/model.glm'', ''models/players/kyle/model_default.skin'',
           ''anything/x.png''])"
    unfolding bare_index_def by code_simp
  from t g e have c: "collect_assets_for_skin sample_exts bare_tree bare_index (Path ''/g'') ''kyle'' ?skin =
     (case find_skin_source ?entry ?skin of
               None \<Rightarrow> Inl ValueError
             | Some skin_src \<Rightarrow>
                 (case glm (e_primary ?entry) of
                    None \<Rightarrow> Inl AttributeError
                  | Some glm_rel \<Rightarrow>
                      (case read_text_from_source bare_tree skin_src (Path ''/g'') of
                         Inl e \<Rightarrow> Inl e
                       | Inr skin_text \<Rightarrow>
                           (case resolve_refs sample_exts bare_index (e_primary ?entry)
                                   (dict_values (parse_skin_text skin_text)) ([], [], []) of
                              Inl e \<Rightarrow> Inl e
                            | Inr (textures, missing, replacements) \<Rightarrow>
                                Inr ([(\<lparr> origin = m_origin (e_primary ?entry),
                                         container = m_container (e_primary ?entry),
                                         rel_path = glm_rel \<rparr>, glm_rel),
                                      (skin_src, ?skin)] @ textures,
                                     missing, replacements)))))"
    by blast
  have s: "build_index sample_exts sample_tree (Path ''/g'') = Inr sample_index"
    unfolding sample_index_def by code_simp
  have h: "map_option rel_path (projr (find_gla sample_index ''kyle'' (the (dict_get (models sample_index) ''kyle'')))) =
     Some (Path ''models/players/_humanoid/_humanoid.gla'')"
    unfolding sample_index_def by code_simp
  show ?thesis
  proof (intro conjI)
    show "build_index sample_exts bare_tree (Path ''/g'') = Inr bare_index" by (rule b)
    show "dict_get (models bare_index) ''kyle'' \<noteq> None" using e by blast
    show "find_gla bare_index ''kyle'' ?entry = Inr None" by (rule g)
    show "(case collect_assets_for_skin sample_exts bare_tree bare_index (Path ''/g'') ''kyle'' ?skin of
      Inl e \<Rightarrow> False
    | Inr (assets, missing, replacements) \<Rightarrow>
        map (\<lambda>(src, dest). as_posix dest) assets =
          [''models/players/kyle/model.glm'', ''models/players/kyle/model_default.skin'',
           ''anything/x.png''])"
      unfolding c by (rule r)
    show "build_index sample_exts sample_tree (Path ''/g'') = Inr sample_index" by (rule s)
    show "map_option rel_path (projr (find_gla sample_index ''kyle'' (the (dict_get (models sample_index) ''kyle'')))) =
     Some (Path ''models/players/_humanoid/_humanoid.gla'')" by (rule h)
  qed
qed

section \<open>A scan root that does not exist\<close>



section \<open>Texture references\<close>

text \<open>
  C4, at the skin line \<open>head,\<close>: the binding map holds the empty reference for \<open>head\<close>;
  \<open>with_suffix\<close> raises \<open>ValueError\<close> on its path, which has no name, so
  \<open>resolve_texture\<close> raises before any table is looked at, there is no fall-back to the
  stem, and \<open>collect_assets_for_skin\<close> raises as a whole. A reference that merely
  resolves to nothing is collected as missing, and the reference \<open>textures/x\<close> of the
  claim does resolve by its stem to \<open>anything/x.png\<close> and is recorded as a rename pair.
\<close>

theorem resolve_texture_empty_reference:
  "parse_skin_text ''head,'' = [(''head'', [])] \<and>
   with_suffix (Path []) ''.jpg'' = Inl ValueError \<and>
   resolve_texture sample_exts empty_ref_index [] None = Inl ValueError \<and>
   build_index sample_exts empty_ref_tree (Path ''/g'') = Inr empty_ref_index \<and>
   collect_assets_for_skin sample_exts empty_ref_tree empty_ref_index (Path ''/g'') ''kyle''
     (Path ''models/players/kyle/model_default.skin'') = Inl ValueError \<and>
   (case collect_assets_for_skin sample_exts empty_ref_tree empty_ref_index (Path ''/g'') ''kyle''
           (Path ''models/players/kyle/model_other.skin'') of
      Inl e \<Rightarrow> False
    | Inr (assets, missing, replacements) \<Rightarrow>
        length assets = 2 \<and> missing = [''nosuch''] \<and> replacements = []) \<and>
   (case collect_assets_for_skin sample_exts bare_tree bare_index (Path ''/g'') ''kyle''
           (Path ''models/players/kyle/model_default.skin'') of
      Inl e \<Rightarrow> False
    | Inr (assets, missing, replacements) \<Rightarrow>
        map (\<lambda>(src, dest). as_posix dest) assets =
          [''models/players/kyle/model.glm'', ''models/players/kyle/model_default.skin'',
           ''anything/x.png''] \<and>
        missing = [] \<and> replacements = [(''textures/x'', ''anything/x.png'')])"
  unfolding empty_ref_index_def bare_index_def by code_simp

section \<open>Properties of the file operations\<close>

lemma grows_refl: "grows fs fs"
  by (simp add: grows_def)

lemma grows_trans: "grows a b \<Longrightarrow> grows b c \<Longrightarrow> grows a c"
  unfolding grows_def by (metis)

lemma walk_mono:
  assumes "\<forall>l. node_at fs l = Some Dir \<longrightarrow> node_at fs' l = Some Dir"
  shows "walk fs cur cs = Some loc \<Longrightarrow> walk fs' cur cs = Some loc"
  using assms by (induction cs arbitrary: cur) (auto split: if_splits)

lemma walk_grows: "grows fs fs' \<Longrightarrow> walk fs cur cs = Some loc \<Longrightarrow> walk fs' cur cs = Some loc"
  using walk_mono unfolding grows_def by blast

lemma locate_grows:
  assumes "grows fs fs'" "locate fs p = Some loc"
  shows "locate fs' p = Some loc"
proof -
  have c: "cwd fs' = cwd fs" using assms(1) by (simp add: grows_def)
  from assms(2) have "walk fs (if p_root p = [] then cwd fs else []) (p_tail p) = Some loc"
    by (simp add: locate_def)
  then have "walk fs' (if p_root p = [] then cwd fs else []) (p_tail p) = Some loc"
    using assms(1) by (rule walk_grows[rotated])
  then show ?thesis by (auto simp: locate_def c split: if_splits)
qed

lemma walk_append:
  "walk fs cur (a @ b) = (case walk fs cur a of None \<Rightarrow> None | Some l \<Rightarrow> walk fs l b)"
  by (induction a arbitrary: cur) auto

lemma walk_plain: "''..'' \<notin> set b \<Longrightarrow> walk fs l b = Some loc \<Longrightarrow> loc = l @ b"
proof (induction b arbitrary: l)
  case Nil
  then show ?case by simp
next
  case (Cons a b)
  then have "walk fs (l @ [a]) b = Some loc" by (auto split: if_splits)
  moreover have "''..'' \<notin> set b" using Cons.prems by simp
  ultimately have "loc = (l @ [a]) @ b" by (rule Cons.IH[rotated])
  then show ?case by simp
qed

lemma node_at_append_entry:
  "node_at fs k = None \<Longrightarrow>
   node_at (fs\<lparr> entries := entries fs @ [(k, n)] \<rparr>) l = (if l = k then Some n else node_at fs l)"
  by (auto simp: node_at_def map_add_def map_of_append split: option.splits if_splits)

lemma grows_append_dir:
  "node_at fs k = None \<Longrightarrow> grows fs (fs\<lparr> entries := entries fs @ [(k, Dir)] \<rparr>)"
  unfolding grows_def by (auto simp: node_at_append_entry)

lemma wf_append_entry:
  "wf_tree fs \<Longrightarrow> node_at fs k = None \<Longrightarrow> wf_tree (fs\<lparr> entries := entries fs @ [(k, n)] \<rparr>)"
  by (auto simp: wf_tree_def node_at_def map_of_eq_None_iff split: if_splits)

lemma mkdirs_grows:
  "mkdirs fs cur cs = Inr fs' \<Longrightarrow> grows fs fs'"
proof (induction fs cur cs rule: mkdirs.induct)
  case (1 fs cur)
  then show ?case by (auto simp: grows_refl split: if_splits)
next
  case (2 fs cur c cs)
  show ?case
  proof (cases "c = ''..''")
    case True
    then show ?thesis using 2 by (auto split: if_splits)
  next
    case False
    show ?thesis
    proof (cases "node_at fs (cur @ [c])")
      case None
      then have "grows (fs\<lparr> entries := entries fs @ [(cur @ [c], Dir)] \<rparr>) fs'"
        using 2 False by (auto split: if_splits)
      then show ?thesis using grows_append_dir[OF None] grows_trans by blast
    next
      case (Some n)
      then show ?thesis using 2 False by (cases n) (auto split: if_splits)
    qed
  qed
qed

lemma mkdirs_wf:
  "mkdirs fs cur cs = Inr fs' \<Longrightarrow> wf_tree fs \<Longrightarrow> wf_tree fs'"
proof (induction fs cur cs rule: mkdirs.induct)
  case (1 fs cur)
  then show ?case by (auto split: if_splits)
next
  case (2 fs cur c cs)
  show ?case
  proof (cases "c = ''..''")
    case True
    then show ?thesis using 2 by (auto split: if_splits)
  next
    case False
    show ?thesis
    proof (cases "node_at fs (cur @ [c])")
      case None
      then show ?thesis using 2 False wf_append_entry[OF "2.prems"(2) None]
        by (auto split: if_splits)
    next
      case (Some n)
      then show ?thesis using 2 False by (cases n) (auto split: if_splits)
    qed
  qed
qed

lemma mkdirs_walk:
  "mkdirs fs cur cs = Inr fs' \<Longrightarrow> \<exists>loc. walk fs' cur cs = Some loc \<and> node_at fs' loc = Some Dir"
proof (induction fs cur cs rule: mkdirs.induct)
  case (1 fs cur)
  then show ?case by (auto split: if_splits)
next
  case (2 fs cur c cs)
  from "2.prems" have d: "node_at fs cur = Some Dir" by (auto split: if_splits)
  have g: "grows fs fs'" using "2.prems" by (rule mkdirs_grows)
  then have d': "node_at fs' cur = Some Dir" using d by (simp add: grows_def)
  show ?case
  proof (cases "c = ''..''")
    case True
    then show ?thesis using 2 d d' by (auto split: if_splits)
  next
    case False
    show ?thesis
    proof (cases "node_at fs (cur @ [c])")
      case None
      then show ?thesis using 2 False d d' by (auto split: if_splits)
    next
      case (Some n)
      then show ?thesis using 2 False d d' by (cases n) (auto split: if_splits)
    qed
  qed
qed

lemma node_at_dict_set:
  "node_at (fs\<lparr> entries := dict_set (entries fs) loc n \<rparr>) l =
     (if l = [] then Some Dir else if l = loc then Some n else node_at fs l)"
  by (simp add: node_at_def map_of_dict_set)

lemma write_file_grows: "write_file fs p data = Inr fs' \<Longrightarrow> grows fs fs'"
  unfolding write_file_def grows_def
  by (auto simp: node_at_dict_set split: option.splits node.splits if_splits)
     (auto simp: node_at_def)

lemma write_file_wf: "write_file fs p data = Inr fs' \<Longrightarrow> wf_tree fs \<Longrightarrow> wf_tree fs'"
  unfolding write_file_def wf_tree_def
  by (auto simp: distinct_dict_set split: option.splits node.splits)

lemma copy2_grows: "copy2 fs src dst = Inr fs' \<Longrightarrow> grows fs fs'"
  unfolding copy2_def
  by (auto simp: Let_def write_file_grows split: option.splits node.splits if_splits)

lemma copy2_wf: "copy2 fs src dst = Inr fs' \<Longrightarrow> wf_tree fs \<Longrightarrow> wf_tree fs'"
  unfolding copy2_def
  by (auto simp: Let_def write_file_wf split: option.splits node.splits if_splits)

lemma copy_asset_grows: "copy_asset fs base_dir src dest_path = Inr fs' \<Longrightarrow> grows fs fs'"
  unfolding copy_asset_def
  by (auto simp: copy2_grows write_file_grows split: option.splits sum.splits if_splits)

lemma copy_asset_wf:
  "copy_asset fs base_dir src dest_path = Inr fs' \<Longrightarrow> wf_tree fs \<Longrightarrow> wf_tree fs'"
  unfolding copy_asset_def
  by (auto simp: copy2_wf write_file_wf split: option.splits sum.splits if_splits)

lemma mkdir_parents_grows: "mkdir_parents fs p = Inr fs' \<Longrightarrow> grows fs fs'"
  unfolding mkdir_parents_def by (rule mkdirs_grows)

lemma mkdir_parents_wf: "mkdir_parents fs p = Inr fs' \<Longrightarrow> wf_tree fs \<Longrightarrow> wf_tree fs'"
  unfolding mkdir_parents_def by (rule mkdirs_wf)

lemma mkdir_parents_locate:
  assumes "mkdir_parents fs p = Inr fs'"
  shows "\<exists>loc. locate fs' p = Some loc \<and> node_at fs' loc = Some Dir"
proof -
  have "cwd fs' = cwd fs" using mkdir_parents_grows[OF assms] by (simp add: grows_def)
  then show ?thesis
    using mkdirs_walk[of fs "if p_root p = [] then cwd fs else []" "p_tail p" fs'] assms
    by (auto simp: mkdir_parents_def locate_def split: if_splits)
qed

lemma set_set_add: "set (set_add xs x) = insert x (set xs)"
  by (auto simp: set_add_def)

lemma extract_loop_props:
  assumes "extract_loop TEXTURE_EXTS base_dir cache_root assets (fs, tm, keep, failed) = Inr (fs', tm', keep', failed')"
  shows "grows fs fs' \<and> (wf_tree fs \<longrightarrow> wf_tree fs') \<and>
         set keep' = set keep \<union> (\<lambda>(src, dest_rel). normalize_rel_path dest_rel) ` set assets"
  using assms
proof (induction assets arbitrary: fs tm keep failed)
  case Nil
  then show ?case by (simp add: grows_refl)
next
  case (Cons a assets)
  obtain src dest_rel where a: "a = (src, dest_rel)" by (cases a)
  let ?dest = "joinpath cache_root dest_rel"
  from Cons.prems a obtain fs1 where m: "mkdir_parents fs (parent ?dest) = Inr fs1"
    by (auto simp: Let_def split: sum.splits)
  have g1: "grows fs fs1" and w1: "wf_tree fs \<Longrightarrow> wf_tree fs1"
    using m mkdir_parents_grows mkdir_parents_wf by blast+
  show ?case
  proof (cases "copy_asset fs1 base_dir src ?dest")
    case (Inl e)
    then have "extract_loop TEXTURE_EXTS base_dir cache_root assets
        (fs1, tm, set_add keep (normalize_rel_path dest_rel), failed @ [as_posix dest_rel]) =
        Inr (fs', tm', keep', failed')"
      using Cons.prems a m by (simp add: Let_def)
    from Cons.IH[OF this] show ?thesis
      using g1 w1 a grows_trans by (auto simp: set_set_add)
  next
    case (Inr fs2)
    then have "extract_loop TEXTURE_EXTS base_dir cache_root assets
        (fs2, if lower (suffix ?dest) \<in> set TEXTURE_EXTS
                  then dict_set tm (lower (stem ?dest)) (as_posix ?dest)
                  else tm, set_add keep (normalize_rel_path dest_rel), failed) =
        Inr (fs', tm', keep', failed')"
      using Cons.prems a m by (simp add: Let_def)
    from Cons.IH[OF this] show ?thesis
      using g1 w1 a grows_trans copy_asset_grows[OF Inr] copy_asset_wf[OF Inr]
      by (auto simp: set_set_add)
  qed
qed

section \<open>Pruning\<close>

lemma rscan_iff:
  "(r, n) \<in> set (rscan fs R) \<longleftrightarrow> r \<noteq> [] \<and> (R @ r, n) \<in> set (entries fs)"
proof
  assume "(r, n) \<in> set (rscan fs R)"
  then obtain k where k: "(k, n) \<in> set (entries fs)" "length R < length k" "take (length R) k = R"
    "r = drop (length R) k"
    by (auto simp: rscan_def)
  then have "k = R @ r" by (metis append_take_drop_id)
  then show "r \<noteq> [] \<and> (R @ r, n) \<in> set (entries fs)" using k by auto
next
  assume "r \<noteq> [] \<and> (R @ r, n) \<in> set (entries fs)"
  then show "(r, n) \<in> set (rscan fs R)"
    by (force simp: rscan_def)
qed

lemma files_below_iff:
  "r \<in> files_below fs R \<longleftrightarrow> r \<noteq> [] \<and> (\<exists>d. (R @ r, File d) \<in> set (entries fs))"
  by (auto simp: files_below_def rscan_iff)

lemma entries_remove_entry:
  "entries (remove_entry fs k) = filter (\<lambda>(k', n). k' \<noteq> k) (entries fs)"
  by (simp add: remove_entry_def)

lemma foldl_removals:
  assumes "\<And>fs x. f fs x = fs \<or> (\<exists>k \<in> K x. f fs x = remove_entry fs k)"
  shows "\<exists>Ks. Ks \<subseteq> (\<Union>x \<in> set xs. K x) \<and>
           entries (foldl f fs xs) = filter (\<lambda>(k, n). k \<notin> Ks) (entries fs) \<and>
           cwd (foldl f fs xs) = cwd fs \<and> zipfile (foldl f fs xs) = zipfile fs"
proof (induction xs arbitrary: fs)
  case Nil
  show ?case by (rule exI[of _ "{}"]) simp
next
  case (Cons x xs)
  from Cons.IH[of "f fs x"] obtain Ks where Ks: "Ks \<subseteq> (\<Union>x \<in> set xs. K x)"
    "entries (foldl f (f fs x) xs) = filter (\<lambda>(k, n). k \<notin> Ks) (entries (f fs x))"
    "cwd (foldl f (f fs x) xs) = cwd (f fs x)" "zipfile (foldl f (f fs x) xs) = zipfile (f fs x)"
    by blast
  from assms[of fs x] show ?case
  proof
    assume "f fs x = fs"
    then show ?thesis using Ks by (intro exI[of _ Ks]) auto
  next
    assume "\<exists>k \<in> K x. f fs x = remove_entry fs k"
    then obtain k where k: "k \<in> K x" "f fs x = remove_entry fs k" by blast
    have "filter (\<lambda>(k', n). k' \<notin> Ks) (filter (\<lambda>(k', n). k' \<noteq> k) (entries fs)) =
          filter (\<lambda>(k', n). k' \<notin> insert k Ks) (entries fs)"
      by (auto intro: filter_cong)
    then show ?thesis using Ks k
      by (intro exI[of _ "insert k Ks"]) (auto simp: entries_remove_entry remove_entry_def)
  qed
qed

lemma foldl_remove_exact:
  "entries (foldl (\<lambda>fs x. if A x then remove_entry fs (g x) else fs) fs xs) =
     filter (\<lambda>(k, n). k \<notin> g ` {x \<in> set xs. A x}) (entries fs) \<and>
   cwd (foldl (\<lambda>fs x. if A x then remove_entry fs (g x) else fs) fs xs) = cwd fs \<and>
   zipfile (foldl (\<lambda>fs x. if A x then remove_entry fs (g x) else fs) fs xs) = zipfile fs"
proof (induction xs arbitrary: fs)
  case Nil
  show ?case by simp
next
  case (Cons x xs)
  let ?f = "\<lambda>fs x. if A x then remove_entry fs (g x) else fs"
  let ?S = "g ` {y \<in> set xs. A y}"
  show ?case
  proof (cases "A x")
    case False
    have "{y \<in> set (x # xs). A y} = {y \<in> set xs. A y}" using False by auto
    then show ?thesis using Cons[of fs] False by simp
  next
    case True
    have e: "g ` {y \<in> set (x # xs). A y} = insert (g x) ?S" using True by auto
    let ?fs' = "remove_entry fs (g x)"
    have f: "foldl ?f fs (x # xs) = foldl ?f ?fs' xs" using True by simp
    have "entries (foldl ?f ?fs' xs) =
            filter (\<lambda>(k, n). k \<notin> ?S) (filter (\<lambda>(k', n). k' \<noteq> g x) (entries fs))"
      using Cons[of ?fs'] by (simp add: entries_remove_entry)
    also have "\<dots> = filter (\<lambda>(k, n). k \<notin> insert (g x) ?S) (entries fs)"
      by (auto intro: filter_cong)
    finally have 1: "entries (foldl ?f fs (x # xs)) =
         filter (\<lambda>(k, n). k \<notin> g ` {y \<in> set (x # xs). A y}) (entries fs)"
      unfolding f e .
    have 2: "cwd (foldl ?f fs (x # xs)) = cwd fs" "zipfile (foldl ?f fs (x # xs)) = zipfile fs"
      unfolding f using Cons[of ?fs'] by (simp_all add: remove_entry_def)
    show ?thesis using 1 2 by blast
  qed
qed

lemma node_at_filter_keys:
  "entries fs' = filter (\<lambda>(k, n). k \<notin> Ks) (entries fs) \<Longrightarrow>
   node_at fs' l = (if l \<in> Ks \<and> l \<noteq> [] then None else node_at fs l)"
proof -
  have "map_of (filter (\<lambda>(k, n). k \<notin> Ks) xs) l = (if l \<in> Ks then None else map_of xs l)" for xs :: "(string list \<times> node) list"
    by (induction xs) auto
  then show "entries fs' = filter (\<lambda>(k, n). k \<notin> Ks) (entries fs) \<Longrightarrow> ?thesis"
    by (simp add: node_at_def)
qed

lemma wf_node_at: "wf_tree fs \<Longrightarrow> (k, n) \<in> set (entries fs) \<Longrightarrow> node_at fs k = (if k = [] then Some Dir else Some n)"
  by (simp add: wf_tree_def node_at_def)


lemma prune_files_entries:
  "entries (prune_files fs R keep xs) =
     filter (\<lambda>(k, n). k \<notin> (\<lambda>(r, n). R @ r) `
        {x \<in> set xs. case x of (r, n) \<Rightarrow> (case n of Dir \<Rightarrow> False | File d \<Rightarrow> normalize_rel_path (rel_of r) \<notin> set keep)})
       (entries fs) \<and>
   cwd (prune_files fs R keep xs) = cwd fs \<and> zipfile (prune_files fs R keep xs) = zipfile fs"
proof -
  let ?A = "\<lambda>(r, n). case n of Dir \<Rightarrow> False | File d \<Rightarrow> normalize_rel_path (rel_of r) \<notin> set keep"
  let ?g = "\<lambda>(r :: string list, n :: node). R @ r"
  have "(\<lambda>fs (r, n). case n of Dir \<Rightarrow> fs
                   | File d \<Rightarrow> if normalize_rel_path (rel_of r) \<notin> set keep
                               then remove_entry fs (R @ r) else fs) =
        (\<lambda>fs x. if ?A x then remove_entry fs (?g x) else fs)"
    by (intro ext) (simp split: prod.splits node.splits)
  then have "prune_files fs R keep xs = foldl (\<lambda>fs x. if ?A x then remove_entry fs (?g x) else fs) fs xs"
    by (simp only: prune_files_def)
  then show ?thesis using foldl_remove_exact[of ?A ?g fs xs] by simp
qed

lemma prune_dirs_entries:
  "\<exists>Ks. Ks \<subseteq> (\<lambda>r. R @ r) ` set ds \<and>
         entries (prune_dirs fs R ds) = filter (\<lambda>(k, n). k \<notin> Ks) (entries fs) \<and>
         cwd (prune_dirs fs R ds) = cwd fs \<and> zipfile (prune_dirs fs R ds) = zipfile fs"
proof -
  have "\<exists>Ks. Ks \<subseteq> (\<Union>r \<in> set ds. {R @ r}) \<and>
           entries (prune_dirs fs R ds) = filter (\<lambda>(k, n). k \<notin> Ks) (entries fs) \<and>
           cwd (prune_dirs fs R ds) = cwd fs \<and> zipfile (prune_dirs fs R ds) = zipfile fs"
    unfolding prune_dirs_def by (rule foldl_removals) simp
  then show ?thesis by auto
qed

lemma cleanup_cache_entries:
  assumes wf: "wf_tree fs" and loc: "locate fs cache_root = Some R" and dir: "node_at fs R = Some Dir"
  shows "\<exists>Ks. entries (cleanup_cache fs cache_root keep) = filter (\<lambda>(k, n). k \<notin> Ks) (entries fs) \<and>
           cwd (cleanup_cache fs cache_root keep) = cwd fs \<and>
           zipfile (cleanup_cache fs cache_root keep) = zipfile fs \<and>
           (\<forall>k \<in> Ks. \<exists>r. r \<noteq> [] \<and> k = R @ r \<and>
               ((\<exists>d. (k, File d) \<in> set (entries fs) \<and> normalize_rel_path (rel_of r) \<notin> set keep) \<or>
                (k, Dir) \<in> set (entries fs))) \<and>
           (\<forall>r d. r \<noteq> [] \<longrightarrow> (R @ r, File d) \<in> set (entries fs) \<longrightarrow>
               normalize_rel_path (rel_of r) \<notin> set keep \<longrightarrow> R @ r \<in> Ks)"
proof -
  let ?xs = "rscan fs R"
  let ?fs1 = "prune_files fs R keep ?xs"
  define K1 where "K1 = (\<lambda>(r, n). R @ r) `
        {x \<in> set ?xs. case x of (r, n) \<Rightarrow> (case n of Dir \<Rightarrow> False | File d \<Rightarrow> normalize_rel_path (rel_of r) \<notin> set keep)}"
  have e1: "entries ?fs1 = filter (\<lambda>(k, n). k \<notin> K1) (entries fs)"
    and c1: "cwd ?fs1 = cwd fs" and z1: "zipfile ?fs1 = zipfile fs"
    unfolding K1_def using prune_files_entries[of fs R keep ?xs] by blast+
  have K1: "k \<in> K1 \<longleftrightarrow> (\<exists>r d. r \<noteq> [] \<and> k = R @ r \<and> (R @ r, File d) \<in> set (entries fs) \<and>
                 normalize_rel_path (rel_of r) \<notin> set keep)" for k
  proof
    assume "k \<in> K1"
    then obtain r n where x: "(r, n) \<in> set ?xs"
      "case n of Dir \<Rightarrow> False | File d \<Rightarrow> normalize_rel_path (rel_of r) \<notin> set keep" "k = R @ r"
      unfolding K1_def by auto
    then obtain d where "n = File d" "normalize_rel_path (rel_of r) \<notin> set keep"
      by (cases n) auto
    then show "\<exists>r d. r \<noteq> [] \<and> k = R @ r \<and> (R @ r, File d) \<in> set (entries fs) \<and>
                 normalize_rel_path (rel_of r) \<notin> set keep"
      using x(1,3) rscan_iff[of r n fs R] by blast
  next
    assume "\<exists>r d. r \<noteq> [] \<and> k = R @ r \<and> (R @ r, File d) \<in> set (entries fs) \<and>
                 normalize_rel_path (rel_of r) \<notin> set keep"
    then obtain r d where r: "r \<noteq> []" "k = R @ r" "(R @ r, File d) \<in> set (entries fs)"
      "normalize_rel_path (rel_of r) \<notin> set keep" by blast
    then have "(r, File d) \<in> set ?xs" by (simp add: rscan_iff)
    with r(4) have "(r, File d) \<in> {x \<in> set ?xs. case x of (r, n) \<Rightarrow> (case n of Dir \<Rightarrow> False | File d \<Rightarrow> normalize_rel_path (rel_of r) \<notin> set keep)}"
      by simp
    then have "(\<lambda>(r, n). R @ r) (r, File d) \<in> K1" unfolding K1_def by (rule imageI)
    then show "k \<in> K1" using r(2) by simp
  qed
  have rg: "rglob fs cache_root = ?xs" using loc dir by (simp add: rglob_def)
  have pe: "path_exists fs cache_root" using loc dir by (simp add: path_exists_def node_of_def)
  have dirs1: "node_at ?fs1 l = Some Dir" if d: "node_at fs l = Some Dir" for l
  proof -
    have "l \<notin> K1 \<or> l = []"
    proof (rule ccontr)
      assume "\<not> (l \<notin> K1 \<or> l = [])"
      then have "l \<in> K1" "l \<noteq> []" by auto
      then obtain r d' where "(l, File d') \<in> set (entries fs)" using K1[of l] by blast
      then have "node_at fs l = Some (File d')" using wf_node_at[OF wf] \<open>l \<noteq> []\<close> by simp
      then show False using d by simp
    qed
    then show ?thesis using node_at_filter_keys[OF e1, of l] d by auto
  qed
  have loc1: "locate ?fs1 cache_root = Some R"
  proof -
    have "walk fs (if p_root cache_root = [] then cwd fs else []) (p_tail cache_root) = Some R"
      using loc by (simp add: locate_def)
    then have "walk ?fs1 (if p_root cache_root = [] then cwd fs else []) (p_tail cache_root) = Some R"
      by (rule walk_mono[rotated]) (simp add: dirs1)
    then show ?thesis by (auto simp: locate_def c1 split: if_splits)
  qed
  have rg1: "rglob ?fs1 cache_root = rscan ?fs1 R" using loc1 dirs1[OF dir] by (simp add: rglob_def)
  define ds where "ds = sort_key (\<lambda>r. - int (length (parts (joinpath cache_root (rel_of r)))))
               (map fst (filter (\<lambda>(r, n). n = Dir) (rscan ?fs1 R)))"
  have ds_set: "(r, Dir) \<in> set (rscan ?fs1 R)" if "r \<in> set ds" for r
    using that unfolding ds_def by auto
  let ?fs2 = "prune_dirs ?fs1 R ds"
  have "cleanup_cache fs cache_root keep =
          (let fs1 = prune_files fs R keep (rglob fs cache_root);
               dirs = sort_key (\<lambda>r. - int (length (parts (joinpath cache_root (rel_of r)))))
                          (map fst (filter (\<lambda>(r, n). n = Dir) (rglob fs1 cache_root)))
           in prune_dirs fs1 R dirs)"
    using pe loc by (simp only: cleanup_cache_def not_True_eq_False if_False option.case simp_thms)
  then have cc: "cleanup_cache fs cache_root keep = ?fs2"
    unfolding Let_def rg rg1 ds_def .
  from prune_dirs_entries[of R ds ?fs1]
  obtain K2 where K2: "K2 \<subseteq> (\<lambda>r. R @ r) ` set ds"
    "entries ?fs2 = filter (\<lambda>(k, n). k \<notin> K2) (entries ?fs1)"
    "cwd ?fs2 = cwd ?fs1" "zipfile ?fs2 = zipfile ?fs1" by blast
  have K2': "\<exists>r. r \<noteq> [] \<and> k = R @ r \<and> (k, Dir) \<in> set (entries fs)" if "k \<in> K2" for k
  proof -
    from that obtain r where r: "r \<in> set ds" "k = R @ r" using K2(1) by blast
    then have "(r, Dir) \<in> set (rscan ?fs1 R)" using ds_set by blast
    then have "r \<noteq> []" "(R @ r, Dir) \<in> set (entries ?fs1)" by (auto simp: rscan_iff)
    then have "(R @ r, Dir) \<in> set (entries fs)" unfolding e1 by simp
    then show ?thesis using r \<open>r \<noteq> []\<close> by blast
  qed
  have e2: "entries ?fs2 = filter (\<lambda>(k, n). k \<notin> K1 \<union> K2) (entries fs)"
    unfolding K2(2) e1 by (auto intro: filter_cong)
  have a: "\<forall>k \<in> K1 \<union> K2. \<exists>r. r \<noteq> [] \<and> k = R @ r \<and>
               ((\<exists>d. (k, File d) \<in> set (entries fs) \<and> normalize_rel_path (rel_of r) \<notin> set keep) \<or>
                (k, Dir) \<in> set (entries fs))"
  proof
    fix k assume "k \<in> K1 \<union> K2"
    then consider "k \<in> K1" | "k \<in> K2" by blast
    then show "\<exists>r. r \<noteq> [] \<and> k = R @ r \<and>
               ((\<exists>d. (k, File d) \<in> set (entries fs) \<and> normalize_rel_path (rel_of r) \<notin> set keep) \<or>
                (k, Dir) \<in> set (entries fs))"
    proof cases
      case 1
      then obtain r d where "r \<noteq> []" "k = R @ r" "(R @ r, File d) \<in> set (entries fs)"
        "normalize_rel_path (rel_of r) \<notin> set keep" using K1[of k] by blast
      then show ?thesis by blast
    next
      case 2
      then show ?thesis using K2'[of k] by blast
    qed
  qed
  have b: "\<forall>r d. r \<noteq> [] \<longrightarrow> (R @ r, File d) \<in> set (entries fs) \<longrightarrow>
               normalize_rel_path (rel_of r) \<notin> set keep \<longrightarrow> R @ r \<in> K1 \<union> K2"
  proof (intro allI impI)
    fix r d assume "r \<noteq> []" "(R @ r, File d) \<in> set (entries fs)"
      "normalize_rel_path (rel_of r) \<notin> set keep"
    then have "R @ r \<in> K1" using K1[of "R @ r"] by blast
    then show "R @ r \<in> K1 \<union> K2" by simp
  qed
  have c: "cwd ?fs2 = cwd fs" "zipfile ?fs2 = zipfile fs" using K2 c1 z1 by simp_all
  show ?thesis
    unfolding cc using e2 c a b by (intro exI[of _ "K1 \<union> K2"] conjI)
qed

lemma wf_filter_keys:
  "wf_tree fs \<Longrightarrow> entries fs' = filter (\<lambda>(k, n). k \<notin> Ks) (entries fs) \<Longrightarrow> wf_tree fs'"
  by (simp add: wf_tree_def distinct_map_filter)

lemma cleanup_cache_files:
  assumes wf: "wf_tree fs" and loc: "locate fs cache_root = Some R" and dir: "node_at fs R = Some Dir"
  shows "files_below (cleanup_cache fs cache_root keep) R =
           {r \<in> files_below fs R. normalize_rel_path (rel_of r) \<in> set keep}"
    and "wf_tree (cleanup_cache fs cache_root keep)"
    and "\<And>k d. (k, File d) \<in> set (entries fs) \<Longrightarrow>
           \<not> (\<exists>r. r \<noteq> [] \<and> k = R @ r \<and> normalize_rel_path (rel_of r) \<notin> set keep) \<Longrightarrow>
           (k, File d) \<in> set (entries (cleanup_cache fs cache_root keep))"
    and "set (entries (cleanup_cache fs cache_root keep)) \<subseteq> set (entries fs)"
proof -
  let ?c = "cleanup_cache fs cache_root keep"
  from cleanup_cache_entries[OF assms, of keep] obtain Ks where
    e: "entries ?c = filter (\<lambda>(k, n). k \<notin> Ks) (entries fs)" and
    a: "\<forall>k \<in> Ks. \<exists>r. r \<noteq> [] \<and> k = R @ r \<and>
               ((\<exists>d. (k, File d) \<in> set (entries fs) \<and> normalize_rel_path (rel_of r) \<notin> set keep) \<or>
                (k, Dir) \<in> set (entries fs))" and
    b: "\<forall>r d. r \<noteq> [] \<longrightarrow> (R @ r, File d) \<in> set (entries fs) \<longrightarrow>
               normalize_rel_path (rel_of r) \<notin> set keep \<longrightarrow> R @ r \<in> Ks"
    by blast
  show w: "wf_tree ?c" using wf e by (rule wf_filter_keys)
  show s: "set (entries ?c) \<subseteq> set (entries fs)" unfolding e by auto
  have uniq: "n = n'" if "(k, n) \<in> set (entries fs)" "(k, n') \<in> set (entries fs)" for k n n'
    using that wf unfolding wf_tree_def by (meson eq_key_imp_eq_value)
  show keepf: "(k, File d) \<in> set (entries ?c)"
    if f: "(k, File d) \<in> set (entries fs)"
      and nk: "\<not> (\<exists>r. r \<noteq> [] \<and> k = R @ r \<and> normalize_rel_path (rel_of r) \<notin> set keep)" for k d
  proof -
    have "k \<notin> Ks"
    proof
      assume "k \<in> Ks"
      then obtain r where r: "r \<noteq> []" "k = R @ r"
        "(\<exists>d. (k, File d) \<in> set (entries fs) \<and> normalize_rel_path (rel_of r) \<notin> set keep) \<or>
                (k, Dir) \<in> set (entries fs)" using a by blast
      from r(3) show False
      proof
        assume "\<exists>d. (k, File d) \<in> set (entries fs) \<and> normalize_rel_path (rel_of r) \<notin> set keep"
        then show False using nk r(1,2) by blast
      next
        assume "(k, Dir) \<in> set (entries fs)"
        then show False using uniq[OF f] by blast
      qed
    qed
    then show ?thesis unfolding e using f by simp
  qed
  show "files_below ?c R = {r \<in> files_below fs R. normalize_rel_path (rel_of r) \<in> set keep}"
  proof (intro set_eqI iffI)
    fix r assume "r \<in> files_below ?c R"
    then obtain d where r: "r \<noteq> []" "(R @ r, File d) \<in> set (entries ?c)"
      by (auto simp: files_below_iff)
    then have in_fs: "(R @ r, File d) \<in> set (entries fs)" and nK: "R @ r \<notin> Ks"
      unfolding e by auto
    then have "normalize_rel_path (rel_of r) \<in> set keep" using b r(1) by blast
    then show "r \<in> {r \<in> files_below fs R. normalize_rel_path (rel_of r) \<in> set keep}"
      using r(1) in_fs by (auto simp: files_below_iff)
  next
    fix r assume "r \<in> {r \<in> files_below fs R. normalize_rel_path (rel_of r) \<in> set keep}"
    then obtain d where r: "r \<noteq> []" "(R @ r, File d) \<in> set (entries fs)"
      "normalize_rel_path (rel_of r) \<in> set keep"
      by (auto simp: files_below_iff)
    have "(R @ r, File d) \<in> set (entries ?c)"
      by (rule keepf[OF r(2)]) (use r(3) in auto)
    then show "r \<in> files_below ?c R" using r(1) by (auto simp: files_below_iff)
  qed
qed

lemma extract_assets_stages:
  assumes "extract_assets TEXTURE_EXTS fs base_dir cache_root assets = Inr (fs', tm, failed)"
  shows "\<exists>fs0 fs1 keep R.
           mkdir_parents fs cache_root = Inr fs0 \<and>
           extract_loop TEXTURE_EXTS base_dir cache_root assets (fs0, [], [], []) = Inr (fs1, tm, keep, failed) \<and>
           fs' = cleanup_cache fs1 cache_root keep \<and>
           set keep = (\<lambda>(src, dest_rel). normalize_rel_path dest_rel) ` set assets \<and>
           grows fs fs0 \<and> grows fs0 fs1 \<and>
           locate fs0 cache_root = Some R \<and> locate fs1 cache_root = Some R \<and>
           node_at fs1 R = Some Dir \<and>
           (wf_tree fs \<longrightarrow> wf_tree fs1)"
proof -
  from assms obtain fs0 where m: "mkdir_parents fs cache_root = Inr fs0"
    by (auto simp: extract_assets_def split: sum.splits)
  with assms obtain fs1 keep where l: "extract_loop TEXTURE_EXTS base_dir cache_root assets (fs0, [], [], []) = Inr (fs1, tm, keep, failed)"
    and c: "fs' = cleanup_cache fs1 cache_root keep"
    by (auto simp: extract_assets_def split: sum.splits)
  from extract_loop_props[OF l] have g1: "grows fs0 fs1" and w1: "wf_tree fs0 \<longrightarrow> wf_tree fs1"
    and k: "set keep = (\<lambda>(src, dest_rel). normalize_rel_path dest_rel) ` set assets" by auto
  from mkdir_parents_locate[OF m] obtain R where R: "locate fs0 cache_root = Some R" "node_at fs0 R = Some Dir"
    by blast
  have "locate fs1 cache_root = Some R" using locate_grows[OF g1 R(1)] .
  moreover have "node_at fs1 R = Some Dir" using g1 R(2) by (simp add: grows_def)
  ultimately show ?thesis
    using m l c k g1 w1 R(1) mkdir_parents_grows[OF m] mkdir_parents_wf[OF m] by blast
qed


lemma node_at_entry: "node_at fs k = Some n \<Longrightarrow> k \<noteq> [] \<Longrightarrow> (k, n) \<in> set (entries fs)"
  by (auto simp: node_at_def dest: map_of_SomeD)


lemma rel_of_tail: "p_root p = [] \<Longrightarrow> rel_of (p_tail p) = p"
  by (simp add: rel_of_def)

lemma locate_joinpath_plain:
  assumes "plain dest_rel" "locate fs (joinpath cache_root dest_rel) = Some L"
  shows "\<exists>R. locate fs cache_root = Some R \<and> L = R @ p_tail dest_rel"
proof -
  let ?start = "if p_root cache_root = [] then cwd fs else []"
  from assms have "walk fs ?start (p_tail cache_root @ p_tail dest_rel) = Some L"
    by (simp add: locate_def joinpath_def plain_def)
  then obtain R where R: "walk fs ?start (p_tail cache_root) = Some R" "walk fs R (p_tail dest_rel) = Some L"
    by (auto simp: walk_append split: option.splits)
  from R(2) assms(1) have "L = R @ p_tail dest_rel" by (auto simp: plain_def dest: walk_plain)
  then show ?thesis using R(1) by (simp add: locate_def)
qed

lemma extract_assets_keeps_destination:
  assumes wf: "wf_tree fs"
    and ex: "extract_assets TEXTURE_EXTS fs base_dir cache_root assets = Inr (fs', tm, failed)"
    and a: "(src, dest_rel) \<in> set assets" and pl: "plain dest_rel"
    and L: "locate fs (joinpath cache_root dest_rel) = Some L" and f: "node_at fs L = Some (File d)"
  shows "\<exists>d'. node_at fs' L = Some (File d')"
proof -
  from extract_assets_stages[OF ex] obtain fs0 fs1 keep R where
    st: "mkdir_parents fs cache_root = Inr fs0"
        "fs' = cleanup_cache fs1 cache_root keep"
        "set keep = (\<lambda>(src, dest_rel). normalize_rel_path dest_rel) ` set assets"
        "grows fs fs0" "grows fs0 fs1"
        "locate fs0 cache_root = Some R" "locate fs1 cache_root = Some R"
        "node_at fs1 R = Some Dir" "wf_tree fs \<longrightarrow> wf_tree fs1"
    by blast
  have g: "grows fs fs1" using st(4,5) by (rule grows_trans)
  from locate_joinpath_plain[OF pl L] obtain R0 where R0: "locate fs cache_root = Some R0"
    "L = R0 @ p_tail dest_rel" by blast
  have "locate fs0 cache_root = Some R0" using locate_grows[OF st(4) R0(1)] .
  then have RR: "R0 = R" using st(6) by simp
  from g f obtain d1 where d1: "node_at fs1 L = Some (File d1)" by (auto simp: grows_def)
  have Lne: "L \<noteq> []" using f by (auto simp: node_at_def)
  have w1: "wf_tree fs1" using st(9) wf by simp
  have m: "(L, File d1) \<in> set (entries fs1)" using node_at_entry[OF d1 Lne] .
  have k: "normalize_rel_path dest_rel \<in> set keep" using st(3) a by force
  have "\<not> (\<exists>r. r \<noteq> [] \<and> L = R @ r \<and> normalize_rel_path (rel_of r) \<notin> set keep)"
  proof
    assume "\<exists>r. r \<noteq> [] \<and> L = R @ r \<and> normalize_rel_path (rel_of r) \<notin> set keep"
    then obtain r where r: "L = R @ r" "normalize_rel_path (rel_of r) \<notin> set keep" by blast
    then have "r = p_tail dest_rel" using R0(2) RR by simp
    then have "rel_of r = dest_rel" using pl by (simp add: plain_def rel_of_tail)
    then show False using r(2) k by simp
  qed
  from cleanup_cache_files(3)[OF w1 st(7,8) m this]
  have "(L, File d1) \<in> set (entries fs')" unfolding st(2) .
  moreover have "wf_tree fs'" unfolding st(2) using cleanup_cache_files(2)[OF w1 st(7,8)] .
  ultimately have "node_at fs' L = Some (File d1)" using wf_node_at Lne by simp
  then show ?thesis by blast
qed

section \<open>The destination of a failed copy\<close>

text \<open>
  C10, at the destination \<open>a/../b.jpg\<close>: the cache holds the file \<open>b.jpg\<close>, which is what
  the destination \<open>cache/a/../b.jpg\<close> names, and the source of the asset does not exist.
  The key \<open>a/../b.jpg\<close> goes to the keep set before the copy is tried and the copy fails,
  but the pruning pass meets the file as \<open>b.jpg\<close>, does not find that key in the keep
  set and removes the file. With the destination written \<open>b.jpg\<close> the file stays, as it
  does for every relative destination without \<open>..\<close> (lemma
  \<open>extract_assets_keeps_destination\<close>).
\<close>

theorem extract_assets_prunes_failed_destination:
  "node_of dotdot_tree (joinpath (Path ''/g/cache'') (Path ''a/../b.jpg'')) = Some (File ''OLD'') \<and>
   locate dotdot_tree (joinpath (Path ''/g/cache'') (Path ''a/../b.jpg'')) = Some [''g'', ''cache'', ''b.jpg''] \<and>
   (case extract_assets sample_exts dotdot_tree (Path ''/g'') (Path ''/g/cache'')
           [disk_asset ''missing.jpg'' ''a/../b.jpg''] of
      Inl e \<Rightarrow> False
    | Inr (fs', texture_map, failed) \<Rightarrow>
        failed = [''a/../b.jpg''] \<and>
        node_at fs' [''g'', ''cache'', ''b.jpg''] = None \<and>
        rscan fs' [''g'', ''cache''] = []) \<and>
   (case extract_assets sample_exts dotdot_tree (Path ''/g'') (Path ''/g/cache'')
           [disk_asset ''missing.jpg'' ''b.jpg''] of
      Inl e \<Rightarrow> False
    | Inr (fs', texture_map, failed) \<Rightarrow>
        failed = [''b.jpg''] \<and>
        node_at fs' [''g'', ''cache'', ''b.jpg''] = Some (File ''OLD''))"
  by code_simp

section \<open>The cache after a call\<close>





section \<open>The order of enumeration\<close>

lemma same_node_at:
  assumes "wf_tree fs" "wf_tree fs'" "same_entries fs fs'"
  shows "node_at fs' l = node_at fs l"
proof -
  have "map_of (entries fs') = map_of (entries fs)"
    using assms map_of_inject_set[of "entries fs'" "entries fs"]
    by (simp add: wf_tree_def same_entries_def)
  then show ?thesis by (simp add: node_at_def)
qed

lemma walk_cong:
  assumes "\<And>l. node_at fs' l = node_at fs l"
  shows "walk fs' cur cs = walk fs cur cs"
  by (induction cs arbitrary: cur) (simp_all add: assms)

lemma same_locate:
  assumes "wf_tree fs" "wf_tree fs'" "same_entries fs fs'"
  shows "locate fs' p = locate fs p"
proof -
  have "cwd fs' = cwd fs" using assms(3) by (simp add: same_entries_def)
  then show ?thesis
    unfolding locate_def using walk_cong[of fs' fs, OF same_node_at[OF assms]] by simp
qed

lemma same_node_of:
  assumes "wf_tree fs" "wf_tree fs'" "same_entries fs fs'"
  shows "node_of fs' p = node_of fs p"
  by (simp add: node_of_def same_locate[OF assms] same_node_at[OF assms] split: option.splits)

lemma same_open_pk3:
  assumes "wf_tree fs" "wf_tree fs'" "same_entries fs fs'"
  shows "open_pk3 fs' p = open_pk3 fs p"
proof -
  have "zipfile fs' = zipfile fs" using assms(3) by (simp add: same_entries_def)
  then show ?thesis
    by (simp add: open_pk3_def same_node_of[OF assms] split: option.splits node.splits)
qed

lemma same_scan_archives:
  assumes "wf_tree fs" "wf_tree fs'" "same_entries fs fs'"
  shows "scan_archives E fs' ps s = scan_archives E fs ps s"
  by (induction ps arbitrary: s)
     (simp_all add: same_open_pk3[OF assms] split: sum.splits error.splits)

lemma same_rscan:
  assumes "same_entries fs fs'"
  shows "set (rscan fs' loc) = set (rscan fs loc)"
proof -
  have "set (entries fs') = set (entries fs)" using assms by (simp add: same_entries_def)
  then show ?thesis by (auto simp: rscan_iff)
qed

lemma listdir_iff:
  "(c, n) \<in> set (listdir fs loc) \<longleftrightarrow> (loc @ [c], n) \<in> set (entries fs)"
proof
  assume "(c, n) \<in> set (listdir fs loc)"
  then obtain k where k: "(k, n) \<in> set (entries fs)" "k \<noteq> []" "butlast k = loc" "c = last k"
    by (auto simp: listdir_def)
  then have "k = loc @ [c]" by (metis append_butlast_last_id)
  then show "(loc @ [c], n) \<in> set (entries fs)" using k by simp
next
  assume "(loc @ [c], n) \<in> set (entries fs)"
  then show "(c, n) \<in> set (listdir fs loc)" by (force simp: listdir_def)
qed

lemma same_listdir:
  assumes "same_entries fs fs'"
  shows "set (listdir fs' loc) = set (listdir fs loc)"
proof -
  have "set (entries fs') = set (entries fs)" using assms by (simp add: same_entries_def)
  then show ?thesis by (auto simp: listdir_iff)
qed

lemma distinct_rscan: "wf_tree fs \<Longrightarrow> distinct (map fst (rscan fs loc))"
proof -
  assume wf: "wf_tree fs"
  let ?P = "\<lambda>(k :: string list, n :: node). length loc < length k \<and> take (length loc) k = loc"
  have "concat (map (\<lambda>(k, n). if length loc < length k then
              if take (length loc) k = loc then [(drop (length loc) k, n)] else [] else []) xs) =
        map (\<lambda>(k, n). (drop (length loc) k, n)) (filter ?P xs)" for xs :: "(string list \<times> node) list"
    by (induction xs) (auto split: if_splits)
  then have e: "rscan fs loc = map (\<lambda>(k, n). (drop (length loc) k, n)) (filter ?P (entries fs))"
    unfolding rscan_def by simp
  define ys where "ys = map fst (filter ?P (entries fs))"
  have d: "distinct ys"
    unfolding ys_def using wf by (simp add: wf_tree_def distinct_map_filter)
  have m: "map fst (rscan fs loc) = map (drop (length loc)) ys"
    unfolding e ys_def by (simp add: case_prod_beta comp_def)
  have "inj_on (drop (length loc)) (set ys)"
  proof (rule inj_onI)
    fix x y assume "x \<in> set ys" "y \<in> set ys"
      and eq: "drop (length loc) x = drop (length loc) y"
    then have "take (length loc) x = loc" "take (length loc) y = loc" unfolding ys_def by auto
    then show "x = y" using eq by (metis append_take_drop_id)
  qed
  then show ?thesis unfolding m using d by (simp add: distinct_map)
qed

lemma distinct_listdir: "wf_tree fs \<Longrightarrow> distinct (map fst (listdir fs loc))"
proof -
  assume wf: "wf_tree fs"
  let ?P = "\<lambda>(k :: string list, n :: node). k \<noteq> [] \<and> butlast k = loc"
  have "concat (map (\<lambda>(k, n). if k \<noteq> [] then
              if butlast k = loc then [(last k, n)] else [] else []) xs) =
        map (\<lambda>(k, n). (last k, n)) (filter ?P xs)" for xs :: "(string list \<times> node) list"
    by (induction xs) (auto split: if_splits)
  then have e: "listdir fs loc = map (\<lambda>(k, n). (last k, n)) (filter ?P (entries fs))"
    unfolding listdir_def by simp
  define ys where "ys = map fst (filter ?P (entries fs))"
  have d: "distinct ys"
    unfolding ys_def using wf by (simp add: wf_tree_def distinct_map_filter)
  have m: "map fst (listdir fs loc) = map last ys"
    unfolding e ys_def by (simp add: case_prod_beta comp_def)
  have "inj_on last (set ys)"
  proof (rule inj_onI)
    fix x y assume "x \<in> set ys" "y \<in> set ys"
      and eq: "last x = last y"
    then have "x \<noteq> []" "y \<noteq> []" "butlast x = butlast y" unfolding ys_def by auto
    then show "x = y" using eq by (metis append_butlast_last_id)
  qed
  then show ?thesis unfolding m using d by (simp add: distinct_map)
qed

lemma sort_key_unique:
  assumes "distinct xs" "distinct ys" "set xs = set ys" "inj_on f (set xs)"
  shows "sort_key f xs = sort_key f ys"
proof -
  have 1: "sorted (map f (sort_key f xs))" "sorted (map f (sort_key f ys))"
    by (rule sorted_sort_key)+
  have 2: "distinct (map f (sort_key f xs))" "distinct (map f (sort_key f ys))"
    using assms by (simp_all add: distinct_map)
  have 3: "set (map f (sort_key f xs)) = set (map f (sort_key f ys))"
    using assms(3) by simp
  have "map f (sort_key f xs) = map f (sort_key f ys)"
    using sorted_distinct_set_unique[OF 1(1) 2(1) 1(2) 2(2) 3] .
  moreover have "inj_on f (set (sort_key f xs) \<union> set (sort_key f ys))"
    using assms(3,4) by simp
  ultimately show ?thesis by (simp add: inj_on_map_eq_map)
qed

lemma same_rglob:
  assumes "wf_tree fs" "wf_tree fs'" "same_entries fs fs'"
  shows "set (rglob fs' p) = set (rglob fs p)"
  by (simp add: rglob_def same_locate[OF assms] same_node_at[OF assms] same_rscan[OF assms(3)]
      split: option.splits)

lemma distinct_rglob: "wf_tree fs \<Longrightarrow> distinct (map fst (rglob fs p))"
  by (simp add: rglob_def distinct_rscan split: option.splits)

lemma same_pk3_paths:
  assumes "wf_tree fs" "wf_tree fs'" "same_entries fs fs'"
  shows "pk3_paths fs' b = pk3_paths fs b"
proof -
  let ?P = "\<lambda>(r :: string list, n :: node). endswith (name (rel_of r)) ''.pk3''"
  let ?g = "\<lambda>r. joinpath b (rel_of r)"
  have c: "[joinpath b (rel_of r). (r, n) \<leftarrow> xs, endswith (name (rel_of r)) ''.pk3''] =
           map ?g (map fst (filter ?P xs))" for xs :: "(string list \<times> node) list"
    by (induction xs) (auto split: if_splits)
  have inj: "inj ?g"
  proof (rule injI)
    fix x y assume "?g x = ?g y"
    then have "p_tail (?g x) = p_tail (?g y)" by simp
    then show "x = y" by (simp add: joinpath_def rel_of_def)
  qed
  have injp: "inj_on parts (range ?g)"
    by (rule inj_onI) (auto simp: parts_def joinpath_def rel_of_def)
  define xs where "xs = map ?g (map fst (filter ?P (rglob fs b)))"
  define ys where "ys = map ?g (map fst (filter ?P (rglob fs' b)))"
  have dx: "distinct xs" unfolding xs_def
    using distinct_rglob[OF assms(1), of b] inj
    by (simp add: distinct_map distinct_map_filter inj_on_def)
  have dy: "distinct ys" unfolding ys_def
    using distinct_rglob[OF assms(2), of b] inj
    by (simp add: distinct_map distinct_map_filter inj_on_def)
  have s: "set ys = set xs" unfolding xs_def ys_def using same_rglob[OF assms, of b] by simp
  have "inj_on parts (set ys)"
    using injp unfolding ys_def by (rule inj_on_subset) auto
  then have "sort_key parts ys = sort_key parts xs" by (rule sort_key_unique[OF dy dx s])
  then show ?thesis unfolding pk3_paths_def c xs_def ys_def .
qed

lemma sources_get_entry: "dict_get (t_sources (get_entry s nm)) key = slots s nm key"
  by (simp add: get_entry_def slots_def dict_get_def split: option.splits)

lemma get_source_slot: "get_source (get_entry s nm) key disk_source = slot_or s nm key"
  by (simp add: get_source_def slot_or_def sources_get_entry)

lemma slots_put_source:
  assumes "t_sources entry = t_sources (get_entry s nm)"
  shows "slots (put_source s nm entry key src) nm' key' =
           (if nm' = nm \<and> key' = key then Some src else slots s nm' key')"
proof -
  have "dict_get (t_sources entry) key' = slots s nm key'"
    using assms by (simp add: sources_get_entry)
  then show ?thesis
    by (auto simp: slots_def put_source_def dict_get_def map_of_dict_set)
qed

lemma slots_add_texture [simp]: "slots (add_texture s rel orig cont) = slots s"
  by (simp add: slots_def add_texture_def Let_def fun_eq_iff)

lemma slots_add_gla [simp]: "slots (add_gla s rel orig cont) = slots s"
  by (simp add: slots_def add_gla_def Let_def fun_eq_iff)

lemma distinct_keys_put_source:
  assumes "distinct_keys s" "t_sources entry = t_sources (get_entry s nm)"
  shows "distinct_keys (put_source s nm entry key src)"
proof -
  have "distinct (map fst (t_sources (get_entry s nm)))"
    using assms(1) by (auto simp: distinct_keys_def get_entry_def split: option.splits)
  then show ?thesis
    using assms
    by (auto simp: distinct_keys_def put_source_def dict_get_def map_of_dict_set distinct_dict_set
        split: if_splits)
qed

lemma distinct_keys_add_texture [simp]: "distinct_keys (add_texture s rel orig cont) = distinct_keys s"
  by (simp add: distinct_keys_def add_texture_def Let_def)

lemma distinct_keys_add_gla [simp]: "distinct_keys (add_gla s rel orig cont) = distinct_keys s"
  by (simp add: distinct_keys_def add_gla_def Let_def)

lemma distinct_keys_scan_member:
  "distinct_keys s \<Longrightarrow> distinct_keys (scan_member E pk3_path s info)"
  by (simp add: scan_member_def Let_def distinct_keys_put_source)

lemma distinct_keys_scan_archives:
  "distinct_keys s \<Longrightarrow> scan_archives E fs ps s = Inr s' \<Longrightarrow> distinct_keys s'"
proof (induction ps arbitrary: s)
  case Nil
  then show ?case by simp
next
  case (Cons p ps)
  show ?case
  proof (cases "open_pk3 fs p")
    case (Inl e)
    then show ?thesis using Cons by (cases e) (auto simp: should_skip_pk3_def)
  next
    case (Inr infos)
    have "distinct_keys (foldl (scan_member E p) s infos)"
      by (rule foldl_invariant) (auto simp: Cons.prems(1) distinct_keys_scan_member)
    then show ?thesis using Cons Inr by (auto simp: should_skip_pk3_def)
  qed
qed

lemma slots_scan_disk_skin:
  "slots (scan_disk_skin d key s rel) nm' key' =
     (if nm' = d \<and> key' = key
      then Some ((slot_or s d key)\<lparr> skins := set_add (skins (slot_or s d key)) rel \<rparr>)
      else slots s nm' key')"
  by (simp add: scan_disk_skin_def Let_def slots_put_source get_source_slot)

lemma slots_scan_disk_gla:
  "slots (scan_disk_gla d key s rel) nm' key' =
     (if nm' = d \<and> key' = key
      then Some ((slot_or s d key)\<lparr> glas := set_add (glas (slot_or s d key)) rel \<rparr>)
      else slots s nm' key')"
  by (simp add: scan_disk_gla_def Let_def slots_put_source get_source_slot)

lemma distinct_keys_scan_disk_skin:
  "distinct_keys s \<Longrightarrow> distinct_keys (scan_disk_skin d key s rel)"
  by (simp add: scan_disk_skin_def Let_def distinct_keys_put_source)

lemma distinct_keys_scan_disk_gla:
  "distinct_keys s \<Longrightarrow> distinct_keys (scan_disk_gla d key s rel)"
  by (simp add: scan_disk_gla_def Let_def distinct_keys_put_source)

lemma models_tmp_scan_textures [simp]:
  "models_tmp (scan_textures E fs loc pre s) = models_tmp s"
proof -
  have "models_tmp (foldl f s xs) = models_tmp s"
    if "\<And>s x. models_tmp (f s x) = models_tmp s" for f :: "scan \<Rightarrow> (string list \<times> node) \<Rightarrow> scan" and xs
    using that by (induction xs arbitrary: s) auto
  then show ?thesis
    unfolding scan_textures_def
    by (auto simp: add_texture_def Let_def split: node.splits prod.splits)
qed

lemma slots_scan_textures [simp]: "slots (scan_textures E fs loc pre s) = slots s"
  by (simp add: slots_def fun_eq_iff)

lemma distinct_keys_scan_textures [simp]:
  "distinct_keys (scan_textures E fs loc pre s) = distinct_keys s"
  by (simp add: distinct_keys_def)

lemma set_foldl_set_add: "set (foldl set_add xs rels) = set xs \<union> set rels"
  by (induction rels arbitrary: xs) (auto simp: set_set_add)

lemma slot_or_eq: "slots s nm key = Some src \<Longrightarrow> slot_or s nm key = src"
  by (simp add: slot_or_def)

lemma slots_foldl_skin:
  "slots (foldl (scan_disk_skin d key) s rels) nm' key' =
     (if nm' = d \<and> key' = key \<and> rels \<noteq> []
      then Some ((slot_or s d key)\<lparr> skins := foldl set_add (skins (slot_or s d key)) rels \<rparr>)
      else slots s nm' key')"
proof (induction rels arbitrary: s)
  case Nil
  then show ?case by simp
next
  case (Cons r rels)
  let ?s1 = "scan_disk_skin d key s r"
  have 1: "slot_or ?s1 d key = (slot_or s d key)\<lparr> skins := set_add (skins (slot_or s d key)) r \<rparr>"
    by (rule slot_or_eq) (simp add: slots_scan_disk_skin)
  show ?case
    by (simp add: Cons.IH[of ?s1] 1) (simp add: slots_scan_disk_skin)
qed

lemma slots_foldl_gla:
  "slots (foldl (scan_disk_gla d key) s rels) nm' key' =
     (if nm' = d \<and> key' = key \<and> rels \<noteq> []
      then Some ((slot_or s d key)\<lparr> glas := foldl set_add (glas (slot_or s d key)) rels \<rparr>)
      else slots s nm' key')"
proof (induction rels arbitrary: s)
  case Nil
  then show ?case by simp
next
  case (Cons r rels)
  let ?s1 = "scan_disk_gla d key s r"
  have 1: "slot_or ?s1 d key = (slot_or s d key)\<lparr> glas := set_add (glas (slot_or s d key)) r \<rparr>"
    by (rule slot_or_eq) (simp add: slots_scan_disk_gla)
  show ?case
    by (simp add: Cons.IH[of ?s1] 1) (simp add: slots_scan_disk_gla)
qed

lemma abs_source_updates [simp]:
  "source_priority (src\<lparr> glm := g \<rparr>) = source_priority src"
  "source_priority (src\<lparr> skins := sk \<rparr>) = source_priority src"
  "source_priority (src\<lparr> glas := gl \<rparr>) = source_priority src"
  by (simp_all add: source_priority_def)

lemma slots_scan_model_dir:
  fixes fs base_dir models_loc d
  defines "key \<equiv> joinpath base_dir (rel_of [''models'', ''players'', d])"
  defines "files \<equiv> map fst (listdir fs (models_loc @ [d]))"
  shows "\<exists>X. slots (scan_model_dir E fs base_dir models_loc s (d, n)) =
           (\<lambda>nm' key'. if n = Dir \<and> (\<exists>f \<in> set files. endswith f ''.glm'') \<and> nm' = d \<and> key' = key
                       then Some X else slots s nm' key') \<and>
         abs_source X =
           (source_priority (slot_or s d key), True,
            set (skins (slot_or s d key)) \<union>
            (\<lambda>f. rel_of [''models'', ''players'', d, f]) ` {f \<in> set files. endswith f ''.skin''})"
proof (cases "n = Dir \<and> (\<exists>f \<in> set files. endswith f ''.glm'')")
  case False
  let ?X = "(slot_or s d key)\<lparr> glm := Some base_dir,
     skins := foldl set_add (skins (slot_or s d key))
        (map (\<lambda>f. rel_of [''models'', ''players'', d, f]) (filter (\<lambda>f. endswith f ''.skin'') files)) \<rparr>"
  have nog: "filter (\<lambda>f. endswith f ''.glm'') files = []" if "n = Dir"
    using False that by (auto simp: filter_empty_conv)
  have "scan_model_dir E fs base_dir models_loc s (d, n) = s"
  proof (cases n)
    case Dir
    then show ?thesis using nog
      by (simp add: scan_model_dir_def Let_def pick_glm_def files_def)
  next
    case (File x)
    then show ?thesis by (simp add: scan_model_dir_def)
  qed
  then show ?thesis using False
    by (intro exI[of _ ?X]) (auto simp: abs_source_def set_foldl_set_add fun_eq_iff)
next
  case True
  then have n: "n = Dir" and "filter (\<lambda>f. endswith f ''.glm'') files \<noteq> []"
    by (auto simp: filter_empty_conv)
  then obtain g where g: "pick_glm (filter (\<lambda>f. endswith f ''.glm'') files) = Some g"
    by (cases "filter (\<lambda>f. endswith f ''.glm'') files") (auto simp: pick_glm_def)
  let ?rel = "\<lambda>f. rel_of [''models'', ''players'', d, f]"
  let ?src0 = "slot_or s d key"
  let ?s1 = "put_source s d (get_entry s d) key (?src0\<lparr> glm := Some (?rel g) \<rparr>)"
  let ?sk = "map ?rel (filter (\<lambda>f. endswith f ''.skin'') files)"
  let ?gl = "map ?rel (filter (\<lambda>f. endswith f ''.gla'') files)"
  let ?s2 = "foldl (scan_disk_skin d key) ?s1 ?sk"
  let ?s3 = "foldl (scan_disk_gla d key) ?s2 ?gl"
  have sm: "scan_model_dir E fs base_dir models_loc s (d, n) =
              scan_textures E fs (models_loc @ [d]) [''models'', ''players'', d] ?s3"
    using n g by (simp add: scan_model_dir_def Let_def files_def key_def get_source_slot)
  have s1: "slots ?s1 nm' key' = (if nm' = d \<and> key' = key then Some (?src0\<lparr> glm := Some (?rel g) \<rparr>) else slots s nm' key')"
    for nm' key'
    by (simp add: slots_put_source)
  let ?x1 = "?src0\<lparr> glm := Some (?rel g) \<rparr>"
  have o1: "slot_or ?s1 d key = ?x1" by (rule slot_or_eq) (simp add: s1)
  let ?x2 = "if ?sk = [] then ?x1 else ?x1\<lparr> skins := foldl set_add (skins ?x1) ?sk \<rparr>"
  have s2: "slots ?s2 nm' key' = (if nm' = d \<and> key' = key then Some ?x2 else slots s nm' key')"
    for nm' key'
    by (simp add: slots_foldl_skin o1 s1)
  have o2: "slot_or ?s2 d key = ?x2" by (rule slot_or_eq) (simp add: s2)
  let ?x3 = "if ?gl = [] then ?x2 else ?x2\<lparr> glas := foldl set_add (glas ?x2) ?gl \<rparr>"
  have s3: "slots ?s3 nm' key' = (if nm' = d \<and> key' = key then Some ?x3 else slots s nm' key')"
    for nm' key'
    by (simp add: slots_foldl_gla o2 s2)
  have a: "abs_source ?x3 = (source_priority ?src0, True, set (skins ?src0) \<union> ?rel ` {f \<in> set files. endswith f ''.skin''})"
    by (auto simp: abs_source_def set_foldl_set_add filter_empty_conv)
  show ?thesis
    using True s3 a unfolding sm by (intro exI[of _ ?x3]) (simp add: fun_eq_iff)
qed

lemma distinct_keys_scan_model_dir:
  assumes "distinct_keys s"
  shows "distinct_keys (scan_model_dir E fs base_dir models_loc s child)"
proof -
  have 1: "distinct_keys (foldl (scan_disk_skin dname key) s' rels)"
    if "distinct_keys s'" for dname key s' rels
    by (rule foldl_invariant) (auto simp: that distinct_keys_scan_disk_skin)
  have 2: "distinct_keys (foldl (scan_disk_gla dname key) s' rels)"
    if "distinct_keys s'" for dname key s' rels
    by (rule foldl_invariant) (auto simp: that distinct_keys_scan_disk_gla)
  show ?thesis
    using assms
    by (auto simp: scan_model_dir_def Let_def 1 2 distinct_keys_put_source
        split: prod.splits node.splits option.splits)
qed

lemma abs_slots_disk_scan:
  assumes "distinct (map fst D)"
  shows "map_option abs_source (slots (foldl (scan_model_dir E fs b loc) s D) nm key) =
     (if (nm, Dir) \<in> set D \<and> (\<exists>f \<in> fst ` set (listdir fs (loc @ [nm])). endswith f ''.glm'') \<and>
         key = joinpath b (rel_of [''models'', ''players'', nm])
      then Some (source_priority (slot_or s nm key), True,
                 set (skins (slot_or s nm key)) \<union>
                 (\<lambda>f. rel_of [''models'', ''players'', nm, f]) `
                   {f \<in> fst ` set (listdir fs (loc @ [nm])). endswith f ''.skin''})
      else map_option abs_source (slots s nm key))"
  using assms
proof (induction D arbitrary: s)
  case Nil
  then show ?case by simp
next
  case (Cons c D)
  obtain d n where c: "c = (d, n)" by (cases c)
  let ?s1 = "scan_model_dir E fs b loc s (d, n)"
  let ?keyd = "joinpath b (rel_of [''models'', ''players'', d])"
  let ?files = "map fst (listdir fs (loc @ [d]))"
  from slots_scan_model_dir[of E fs b loc s d n] obtain X where
    X: "slots ?s1 = (\<lambda>nm' key'. if n = Dir \<and> (\<exists>f \<in> set ?files. endswith f ''.glm'') \<and> nm' = d \<and> key' = ?keyd
                       then Some X else slots s nm' key')"
    and aX: "abs_source X =
           (source_priority (slot_or s d ?keyd), True,
            set (skins (slot_or s d ?keyd)) \<union>
            (\<lambda>f. rel_of [''models'', ''players'', d, f]) ` {f \<in> set ?files. endswith f ''.skin''})"
    by blast
  have dD: "distinct (map fst D)" and notin: "\<And>n'. (d, n') \<notin> set D"
    using Cons.prems c by (auto simp: image_iff)
  note IH = Cons.IH[OF dD, of ?s1]
  have sf: "set ?files = fst ` set (listdir fs (loc @ [d]))" by simp
  show ?case
  proof (cases "nm = d")
    case True
    have "map_option abs_source (slots (foldl (scan_model_dir E fs b loc) s (c # D)) nm key) =
          map_option abs_source (slots ?s1 nm key)"
      using IH notin True c by simp
    also have "\<dots> = (if n = Dir \<and> (\<exists>f \<in> set ?files. endswith f ''.glm'') \<and> key = ?keyd
                      then Some (abs_source X) else map_option abs_source (slots s nm key))"
      using True by (auto simp: X)
    finally show ?thesis
      using True c notin aX unfolding sf by auto
  next
    case False
    have "slots ?s1 nm key' = slots s nm key'" for key' using False by (simp add: X)
    then have "slot_or ?s1 nm key = slot_or s nm key" "slots ?s1 nm key = slots s nm key"
      by (simp_all add: slot_or_def)
    then show ?thesis using IH False c by auto
  qed
qed

lemma same_disk_scan:
  assumes "wf_tree fs" "wf_tree fs'" "same_entries fs fs'"
  shows "map_option abs_source (slots (foldl (scan_model_dir E fs' b loc) s (listdir fs' loc)) nm key) =
         map_option abs_source (slots (foldl (scan_model_dir E fs b loc) s (listdir fs loc)) nm key)"
  unfolding abs_slots_disk_scan[OF distinct_listdir[OF assms(1)]]
            abs_slots_disk_scan[OF distinct_listdir[OF assms(2)]]
            same_listdir[OF assms(3)]
  by simp

lemma finish_models_step:
  assumes "distinct (map fst tmp)"
  shows "map_of (foldl (\<lambda>ms (nm, data). case finish_entry data of None \<Rightarrow> ms | Some e \<Rightarrow> dict_set ms nm e) acc tmp) nm =
           (case map_of tmp nm of
              None \<Rightarrow> map_of acc nm
            | Some data \<Rightarrow> (case finish_entry data of None \<Rightarrow> map_of acc nm | Some e \<Rightarrow> Some e))"
  using assms
proof (induction tmp arbitrary: acc)
  case Nil
  then show ?case by simp
next
  case (Cons a tmp)
  obtain n d where a: "a = (n, d)" by (cases a)
  have dt: "distinct (map fst tmp)" and nn: "map_of tmp n = None"
    using Cons.prems a by (auto simp: map_of_eq_None_iff)
  let ?acc' = "case finish_entry d of None \<Rightarrow> acc | Some e \<Rightarrow> dict_set acc n e"
  note IH = Cons.IH[OF dt, of ?acc']
  show ?case
  proof (cases "nm = n")
    case True
    then show ?thesis using IH nn a
      by (auto simp: map_of_dict_set split: option.splits)
  next
    case False
    then show ?thesis using IH a
      by (auto simp: map_of_dict_set split: option.splits)
  qed
qed

lemma finish_models_get:
  assumes "distinct (map fst tmp)"
  shows "dict_get (finish_models tmp) nm =
           (case map_of tmp nm of None \<Rightarrow> None | Some data \<Rightarrow> finish_entry data)"
  unfolding finish_models_def dict_get_def finish_models_step[OF assms]
  by (auto split: option.splits)

lemma finish_entry_None:
  "finish_entry data = None \<longleftrightarrow> \<not> (\<exists>src \<in> set (dict_values (t_sources data)). glm src \<noteq> None)"
proof -
  let ?gs = "filter (\<lambda>s. glm s \<noteq> None) (dict_values (t_sources data))"
  have "finish_entry data = None \<longleftrightarrow> sort_key source_priority ?gs = []"
    by (auto simp: finish_entry_def Let_def split: list.splits)
  also have "\<dots> \<longleftrightarrow> ?gs = []" by (metis set_sort set_empty)
  also have "\<dots> \<longleftrightarrow> \<not> (\<exists>src \<in> set (dict_values (t_sources data)). glm src \<noteq> None)"
    by (simp add: filter_empty_conv)
  finally show ?thesis .
qed

lemma finish_entry_Some:
  assumes "finish_entry data = Some me"
  shows "e_primary me \<in> set (dict_values (t_sources data))" "glm (e_primary me) \<noteq> None"
    "\<forall>src \<in> set (dict_values (t_sources data)). glm src \<noteq> None \<longrightarrow>
        source_priority (e_primary me) \<le> source_priority src"
    "set (e_skins me) = (\<Union>src \<in> set (dict_values (t_sources data)). set (skins src))"
proof -
  let ?vs = "dict_values (t_sources data)"
  let ?gs = "filter (\<lambda>s. glm s \<noteq> None) ?vs"
  from assms obtain others where srt: "sort_key source_priority ?gs = e_primary me # others"
    and sk: "e_skins me = sort_key (\<lambda>p. lower (as_posix p)) (remdups (concat (map skins ?vs)))"
    by (auto simp: finish_entry_def Let_def split: list.splits)
  note h = sort_key_head[OF srt]
  from h(1) show "e_primary me \<in> set ?vs" "glm (e_primary me) \<noteq> None" by auto
  from h(2) show "\<forall>src \<in> set ?vs. glm src \<noteq> None \<longrightarrow> source_priority (e_primary me) \<le> source_priority src"
    by auto
  show "set (e_skins me) = (\<Union>src \<in> set ?vs. set (skins src))"
    unfolding sk by simp
qed

lemma sources_of_slots:
  assumes "distinct_keys s"
  shows "(case map_of (models_tmp s) nm of None \<Rightarrow> {} | Some data \<Rightarrow> set (dict_values (t_sources data))) =
           {src. \<exists>key. slots s nm key = Some src}"
proof (cases "map_of (models_tmp s) nm")
  case None
  then show ?thesis by (simp add: slots_def dict_get_def)
next
  case (Some data)
  then have "distinct (map fst (t_sources data))"
    using assms by (simp add: distinct_keys_def dict_get_def)
  then have "ran (map_of (t_sources data)) = snd ` set (t_sources data)" by (rule ran_distinct)
  then show ?thesis using Some
    by (auto simp: slots_def dict_get_def dict_values_def ran_def)
qed

lemma models_tmp_scan_loose_textures [simp]:
  "models_tmp (scan_loose_textures E fs b s) = models_tmp s"
  by (simp add: scan_loose_textures_def Let_def split: option.splits)

lemma distinct_keys_scan_disk_models:
  assumes "distinct_keys s"
  shows "distinct_keys (scan_disk_models E fs b s)"
proof -
  have "distinct_keys (foldl (scan_model_dir E fs b loc) s xs)" for loc xs
    by (rule foldl_invariant) (auto simp: assms distinct_keys_scan_model_dir)
  then show ?thesis using assms
    by (auto simp: scan_disk_models_def Let_def split: option.splits)
qed

lemma same_scan_disk_models:
  assumes "wf_tree fs" "wf_tree fs'" "same_entries fs fs'"
  shows "map_option abs_source (slots (scan_disk_models E fs' b s) nm key) =
         map_option abs_source (slots (scan_disk_models E fs b s) nm key)"
  unfolding scan_disk_models_def Let_def same_locate[OF assms] same_node_at[OF assms]
  using same_disk_scan[OF assms]
  by (auto split: option.splits)

lemma finish_from_slots:
  assumes dk: "distinct_keys s"
  defines "A \<equiv> \<lambda>nm. {a. \<exists>key. map_option abs_source (slots s nm key) = Some a}"
  shows "dict_get (finish_models (models_tmp s)) nm = None \<longleftrightarrow> \<not> (\<exists>p S. (p, True, S) \<in> A nm)"
    and "dict_get (finish_models (models_tmp s)) nm = Some me \<Longrightarrow>
           (\<exists>S. (source_priority (e_primary me), True, S) \<in> A nm) \<and>
           (\<forall>p S. (p, True, S) \<in> A nm \<longrightarrow> source_priority (e_primary me) \<le> p) \<and>
           set (e_skins me) = \<Union> {S. \<exists>p g. (p, g, S) \<in> A nm}"
proof -
  let ?V = "{src. \<exists>key. slots s nm key = Some src}"
  have A: "A nm = abs_source ` ?V"
  proof (intro set_eqI iffI)
    fix a assume "a \<in> A nm"
    then obtain key src where "slots s nm key = Some src" "abs_source src = a"
      unfolding A_def by auto
    then show "a \<in> abs_source ` ?V" by blast
  next
    fix a assume "a \<in> abs_source ` ?V"
    then obtain src key where "slots s nm key = Some src" "a = abs_source src" by blast
    then have "map_option abs_source (slots s nm key) = Some a" by simp
    then show "a \<in> A nm" unfolding A_def by blast
  qed
  have m: "(p, g, S) \<in> A nm \<longleftrightarrow>
             (\<exists>src \<in> ?V. source_priority src = p \<and> (glm src \<noteq> None) = g \<and> set (skins src) = S)" for p g S
  proof
    assume "(p, g, S) \<in> A nm"
    then obtain src where "src \<in> ?V" "abs_source src = (p, g, S)" unfolding A by force
    then show "\<exists>src \<in> ?V. source_priority src = p \<and> (glm src \<noteq> None) = g \<and> set (skins src) = S"
      by (intro bexI[of _ src]) (simp_all add: abs_source_def)
  next
    assume "\<exists>src \<in> ?V. source_priority src = p \<and> (glm src \<noteq> None) = g \<and> set (skins src) = S"
    then obtain src where "src \<in> ?V" "abs_source src = (p, g, S)" by (auto simp: abs_source_def)
    then show "(p, g, S) \<in> A nm" unfolding A by force
  qed
  have d: "distinct (map fst (models_tmp s))" using dk by (simp add: distinct_keys_def)
  note V = sources_of_slots[OF dk, of nm]
  note g = finish_models_get[OF d, of nm]
  show "dict_get (finish_models (models_tmp s)) nm = None \<longleftrightarrow> \<not> (\<exists>p S. (p, True, S) \<in> A nm)"
  proof (cases "map_of (models_tmp s) nm")
    case None
    then have "?V = {}" using V by simp
    then show ?thesis using None g A by simp
  next
    case (Some data)
    then have v: "set (dict_values (t_sources data)) = ?V" using V by simp
    have "(\<exists>p S. (p, True, S) \<in> A nm) \<longleftrightarrow> (\<exists>src \<in> ?V. glm src \<noteq> None)"
      unfolding m by blast
    then show ?thesis using Some g finish_entry_None[of data] v by simp
  qed
  show "(\<exists>S. (source_priority (e_primary me), True, S) \<in> A nm) \<and>
           (\<forall>p S. (p, True, S) \<in> A nm \<longrightarrow> source_priority (e_primary me) \<le> p) \<and>
           set (e_skins me) = \<Union> {S. \<exists>p g. (p, g, S) \<in> A nm}"
    if me: "dict_get (finish_models (models_tmp s)) nm = Some me"
  proof -
    from me g obtain data where data: "map_of (models_tmp s) nm = Some data" "finish_entry data = Some me"
      by (auto split: option.splits)
    then have v: "set (dict_values (t_sources data)) = ?V" using V by simp
    note f = finish_entry_Some[OF data(2), unfolded v]
    have 1: "\<exists>S. (source_priority (e_primary me), True, S) \<in> A nm"
      unfolding m using f(1,2) by blast
    have 2: "\<forall>p S. (p, True, S) \<in> A nm \<longrightarrow> source_priority (e_primary me) \<le> p"
      unfolding m using f(3) by blast
    have 3: "set (e_skins me) = \<Union> {S. \<exists>p g. (p, g, S) \<in> A nm}"
      unfolding m f(4) by blast
    show ?thesis using 1 2 3 by blast
  qed
qed

lemma slots_cong: "models_tmp s' = models_tmp s \<Longrightarrow> slots s' = slots s"
  by (simp add: slots_def fun_eq_iff)

lemma distinct_keys_cong: "models_tmp s' = models_tmp s \<Longrightarrow> distinct_keys s' = distinct_keys s"
  by (simp add: distinct_keys_def)

lemma build_index_Inl:
  "build_index E fs b = Inl e \<longleftrightarrow> scan_archives E fs (pk3_paths fs b) empty_scan = Inl e"
  by (auto simp: build_index_def Let_def split: sum.splits)

lemma build_index_Inr:
  assumes "build_index E fs b = Inr idx"
  shows "\<exists>s1. scan_archives E fs (pk3_paths fs b) empty_scan = Inr s1 \<and>
              models idx = finish_models (models_tmp (scan_disk_models E fs b s1))"
  using assms by (auto simp: build_index_def Let_def split: sum.splits)

text \<open>
  C9: \<open>build_index\<close> is a function of the tree, and what the claim names does not even
  depend on the order in which the operating system enumerates the entries. For two
  well-formed trees with the same entries, working directory and archive contents, the
  two runs raise the same, and when they return, the indexes have the same model names
  and, for every model, a primary source with the same priority tuple and the same set
  of skin files.
\<close>

theorem build_index_enumeration_independent:
  assumes "wf_tree fs" "wf_tree fs'" "same_entries fs fs'"
  shows "(\<forall>e. build_index TEXTURE_EXTS fs' base_dir = Inl e \<longleftrightarrow>
              build_index TEXTURE_EXTS fs base_dir = Inl e) \<and>
         (\<forall>idx idx'.
            build_index TEXTURE_EXTS fs base_dir = Inr idx \<longrightarrow>
            build_index TEXTURE_EXTS fs' base_dir = Inr idx' \<longrightarrow>
            fst ` set (models idx') = fst ` set (models idx) \<and>
            (\<forall>nm me me'.
               dict_get (models idx) nm = Some me \<longrightarrow> dict_get (models idx') nm = Some me' \<longrightarrow>
               source_priority (e_primary me') = source_priority (e_primary me) \<and>
               set (e_skins me') = set (e_skins me)))"
proof (intro conjI allI impI)
  have sa: "scan_archives TEXTURE_EXTS fs' (pk3_paths fs' base_dir) empty_scan =
            scan_archives TEXTURE_EXTS fs (pk3_paths fs base_dir) empty_scan"
    by (simp add: same_pk3_paths[OF assms] same_scan_archives[OF assms])
  show "build_index TEXTURE_EXTS fs' base_dir = Inl e \<longleftrightarrow> build_index TEXTURE_EXTS fs base_dir = Inl e" for e
    by (simp add: build_index_Inl sa)
  fix idx idx'
  assume b: "build_index TEXTURE_EXTS fs base_dir = Inr idx"
    and b': "build_index TEXTURE_EXTS fs' base_dir = Inr idx'"
  from build_index_Inr[OF b] obtain s1 where
    s1: "scan_archives TEXTURE_EXTS fs (pk3_paths fs base_dir) empty_scan = Inr s1"
    and m: "models idx = finish_models (models_tmp (scan_disk_models TEXTURE_EXTS fs base_dir s1))"
    by blast
  from build_index_Inr[OF b'] sa s1 have
    m': "models idx' = finish_models (models_tmp (scan_disk_models TEXTURE_EXTS fs' base_dir s1))"
    by auto
  let ?s = "scan_disk_models TEXTURE_EXTS fs base_dir s1"
  let ?s' = "scan_disk_models TEXTURE_EXTS fs' base_dir s1"
  have "distinct_keys empty_scan" by (simp add: distinct_keys_def empty_scan_def dict_get_def)
  then have "distinct_keys s1" using s1 by (rule distinct_keys_scan_archives)
  then have dk: "distinct_keys ?s" and dk': "distinct_keys ?s'"
    by (simp_all add: distinct_keys_scan_disk_models)
  have A: "{a. \<exists>key. map_option abs_source (slots ?s' nm key) = Some a} =
           {a. \<exists>key. map_option abs_source (slots ?s nm key) = Some a}" for nm
    by (simp add: same_scan_disk_models[OF assms])
  note f = finish_from_slots[OF dk] and f' = finish_from_slots[OF dk']
  have none: "dict_get (models idx') nm = None \<longleftrightarrow> dict_get (models idx) nm = None" for nm
    unfolding m m' f(1) f'(1) A ..
  have "dom (map_of (models idx')) = dom (map_of (models idx))"
    using none by (auto simp: dict_get_def dom_def)
  then show "fst ` set (models idx') = fst ` set (models idx)"
    by (simp add: dom_map_of_conv_image_fst)
  fix nm me me'
  assume g: "dict_get (models idx) nm = Some me" and g': "dict_get (models idx') nm = Some me'"
  note r = f(2)[OF g[unfolded m]] and r' = f'(2)[OF g'[unfolded m'], unfolded A]
  from r r' have "source_priority (e_primary me') \<le> source_priority (e_primary me)"
    "source_priority (e_primary me) \<le> source_priority (e_primary me')"
    by blast+
  then show "source_priority (e_primary me') = source_priority (e_primary me)" by simp
  from r r' show "set (e_skins me') = set (e_skins me)" by simp
qed

theorem build_index_enumeration_independent_witness:
  "wf_tree sample_tree \<and> wf_tree sample_tree_rev \<and> same_entries sample_tree sample_tree_rev \<and>
   entries sample_tree_rev \<noteq> entries sample_tree \<and>
   build_index sample_exts sample_tree (Path ''/g'') = Inr sample_index \<and>
   build_index sample_exts sample_tree_rev (Path ''/g'') = Inr sample_index_rev \<and>
   map fst (models sample_index) = [''kyle''] \<and>
   fst ` set (models sample_index_rev) = fst ` set (models sample_index) \<and>
   source_priority (e_primary (the (dict_get (models sample_index_rev) ''kyle''))) =
     source_priority (e_primary (the (dict_get (models sample_index) ''kyle''))) \<and>
   set (e_skins (the (dict_get (models sample_index_rev) ''kyle''))) =
     set (e_skins (the (dict_get (models sample_index) ''kyle'')))"
proof -
  have w: "wf_tree sample_tree" by code_simp
  have w': "wf_tree sample_tree_rev" by code_simp
  have se: "same_entries sample_tree sample_tree_rev"
    by (simp add: same_entries_def sample_tree_rev_def)
  have ne: "entries sample_tree_rev \<noteq> entries sample_tree" by code_simp
  have b: "build_index sample_exts sample_tree (Path ''/g'') = Inr sample_index"
    unfolding sample_index_def by code_simp
  have b': "build_index sample_exts sample_tree_rev (Path ''/g'') = Inr sample_index_rev"
    unfolding sample_index_rev_def by code_simp
  have k: "map fst (models sample_index) = [''kyle'']"
    unfolding sample_index_def by code_simp
  have e: "dict_get (models sample_index) ''kyle'' = Some (the (dict_get (models sample_index) ''kyle''))"
    unfolding sample_index_def by code_simp
  have e': "dict_get (models sample_index_rev) ''kyle'' = Some (the (dict_get (models sample_index_rev) ''kyle''))"
    unfolding sample_index_rev_def by code_simp
  from build_index_enumeration_independent[OF w w' se, of sample_exts "Path ''/g''"] b b' e e'
  have "fst ` set (models sample_index_rev) = fst ` set (models sample_index)"
    and "source_priority (e_primary (the (dict_get (models sample_index_rev) ''kyle''))) =
         source_priority (e_primary (the (dict_get (models sample_index) ''kyle'')))"
    and "set (e_skins (the (dict_get (models sample_index_rev) ''kyle''))) =
         set (e_skins (the (dict_get (models sample_index) ''kyle'')))"
    by blast+
  then show ?thesis using w w' se ne b b' k by blast
qed

end
